theory Spec2Isabelle
  imports Complex_Main
begin

section \<open>The disks-poweroff daemon\<close>

text \<open>
  A shallow embedding of \<^verbatim>\<open>disks-poweroff.py\<close>, in its two versions: the current one
  (\<^verbatim>\<open>src/src/disks-poweroff.py\<close>, classes \<^verbatim>\<open>DiskState\<close> and \<^verbatim>\<open>DiskSectors\<close>) and the
  earlier one (\<^verbatim>\<open>src/disks-poweroff.py\<close>, lists in dictionaries), whose definitions
  carry the suffix \<open>_old\<close>.

  The outside world is explicit. What \<^verbatim>\<open>/proc/diskstats\<close> holds, what \<^verbatim>\<open>time.time()\<close>
  returns and the exit statuses of \<^verbatim>\<open>smartctl\<close> and \<^verbatim>\<open>hdparm\<close> are inputs (record
  \<open>world\<close>); the processes started and the lines sent to syslog are outputs, appended to
  the field \<open>trace\<close> of the daemon's state. The floats of \<^verbatim>\<open>time.time()\<close> are taken as
  real numbers. An exception is a value \<open>Inl e\<close> of the result.
\<close>

subsection \<open>Data\<close>

datatype error = IndexError | KeyError

text \<open>The three strings \<^verbatim>\<open>ACTIVE\<close>, \<^verbatim>\<open>IDLE\<close> and \<^verbatim>\<open>POWEROFF\<close>, the only values ever
  stored in \<^verbatim>\<open>DiskState.state\<close>.\<close>

datatype state_label = ACTIVE | IDLE | POWEROFF

datatype priority = LOG_ERR | LOG_WARNING | LOG_INFO | LOG_DEBUG

text \<open>\<open>Popen argv\<close> is a \<^verbatim>\<open>subprocess.Popen(argv, ...)\<close> followed by its
  \<^verbatim>\<open>communicate()\<close>; \<open>Syslog p m\<close> is \<^verbatim>\<open>syslog.syslog(p, m)\<close>.\<close>

datatype event = Popen "string list" | Syslog priority string

record DiskState =
  state :: state_label
  timestamp :: real

record DiskSectors =
  sectors_read :: string
  sectors_written :: string

text \<open>\<^verbatim>\<open>DiskSectors.__eq__\<close>.\<close>

definition DiskSectors_eq :: "DiskSectors \<Rightarrow> DiskSectors \<Rightarrow> bool" where
  "DiskSectors_eq self other =
     (sectors_read self = sectors_read other \<and> sectors_written self = sectors_written other)"

record daemon =
  disks :: "string list"
  timeout :: int
  polling_interval :: int
  diskstats :: "string \<rightharpoonup> DiskSectors"
  diskstats_prev :: "string \<rightharpoonup> DiskSectors"
  disk_states :: "string \<rightharpoonup> DiskState"
  trace :: "event list"

text \<open>
  The inputs of one cycle of \<^verbatim>\<open>run\<close>: the lines \<^verbatim>\<open>fd.readlines()\<close> returns, and for the
  \<open>i\<close>-th iteration (from 0) of the loop over \<^verbatim>\<open>self.disks\<close> in \<^verbatim>\<open>compare\<close> and in
  \<^verbatim>\<open>poweroff\<close>, the reading of the clock taken there and the exit statuses the two
  commands would return there.
\<close>

record world =
  diskstats_lines :: "string list"
  now_compare :: "nat \<Rightarrow> real"
  now_poweroff :: "nat \<Rightarrow> real"
  smartctl_returncode :: "nat \<Rightarrow> int"
  hdparm_returncode :: "nat \<Rightarrow> int"

definition syslog :: "priority \<Rightarrow> string \<Rightarrow> daemon \<Rightarrow> daemon" where
  "syslog p m st = st\<lparr>trace := trace st @ [Syslog p m]\<rparr>"

definition popen :: "string list \<Rightarrow> daemon \<Rightarrow> daemon" where
  "popen argv st = st\<lparr>trace := trace st @ [Popen argv]\<rparr>"

subsection \<open>Strings\<close>

text \<open>Characters are code points below 256. \<open>is_space\<close> is \<^verbatim>\<open>str.isspace\<close> there:
  tab to carriage return, the four separators 28 to 31, the space, NEL and the
  no-break space.\<close>

definition is_space :: "char \<Rightarrow> bool" where
  "is_space c =
     (let n = (of_char c :: nat)
      in (9 \<le> n \<and> n \<le> 13) \<or> (28 \<le> n \<and> n \<le> 32) \<or> n = 133 \<or> n = 160)"

text \<open>\<^verbatim>\<open>s.strip()\<close>.\<close>

definition strip :: "string \<Rightarrow> string" where
  "strip s = rev (dropWhile is_space (rev (dropWhile is_space s)))"

text \<open>\<^verbatim>\<open>s.split(sep)\<close> for a separator of one character: never an empty list.\<close>

fun split :: "char \<Rightarrow> string \<Rightarrow> string list" where
  "split sep [] = [[]]"
| "split sep (c # cs) =
     (if c = sep then [] # split sep cs
      else (case split sep cs of
              [] \<Rightarrow> [[c]]
            | part # parts \<Rightarrow> (c # part) # parts))"

text \<open>\<^verbatim>\<open>re.sub(' +', ' ', line)\<close>: a space followed by a space is dropped, so every run of
  spaces becomes one space.\<close>

fun collapse_spaces :: "string \<Rightarrow> string" where
  "collapse_spaces (a # b # cs) =
     (if a = CHR '' '' \<and> b = CHR '' '' then collapse_spaces (b # cs)
      else a # collapse_spaces (b # cs))"
| "collapse_spaces cs = cs"

text \<open>\<^verbatim>\<open>xs[i]\<close> for \<open>i \<ge> 0\<close>.\<close>

definition index :: "'a list \<Rightarrow> nat \<Rightarrow> error + 'a" where
  "index xs i = (if i < length xs then Inr (xs ! i) else Inl IndexError)"

subsection \<open>The counter source\<close>

definition line_fields :: "string \<Rightarrow> string list" where
  "line_fields line = split CHR '' '' (strip (collapse_spaces line))"

definition parse_diskstats_line :: "string \<Rightarrow> error + (string \<times> string \<times> string)" where
  "parse_diskstats_line line =
     (let line' = line_fields line
      in case index line' 2 of
           Inl e \<Rightarrow> Inl e
         | Inr device_name \<Rightarrow>
             (case index line' 5 of
                Inl e \<Rightarrow> Inl e
              | Inr sectors_read' \<Rightarrow>
                  (case index line' 9 of
                     Inl e \<Rightarrow> Inl e
                   | Inr sectors_written' \<Rightarrow>
                       Inr (device_name, sectors_read', sectors_written'))))"

text \<open>The loop of \<^verbatim>\<open>poll\<close> over the lines; the exception of a line ends it.\<close>

fun poll_lines :: "string list \<Rightarrow> daemon \<Rightarrow> error + daemon" where
  "poll_lines [] st = Inr st"
| "poll_lines (line # rest) st =
     (case parse_diskstats_line line of
        Inl e \<Rightarrow> Inl e
      | Inr (disk, sectors_read', sectors_written') \<Rightarrow>
          poll_lines rest
            (if disk \<in> set (disks st)
             then st\<lparr>diskstats := (diskstats st)(disk \<mapsto>
                    \<lparr>sectors_read = sectors_read', sectors_written = sectors_written'\<rparr>)\<rparr>
             else st))"

definition poll :: "world \<Rightarrow> daemon \<Rightarrow> error + daemon" where
  "poll w st =
     poll_lines (diskstats_lines w)
       (st\<lparr>diskstats_prev := diskstats st, diskstats := Map.empty\<rparr>)"

subsection \<open>The activity detector and the state machine\<close>

text \<open>The condition of \<^verbatim>\<open>compare\<close>: the disk is in both dictionaries and the two
  \<^verbatim>\<open>DiskSectors\<close> are equal.\<close>

definition unchanged :: "daemon \<Rightarrow> string \<Rightarrow> bool" where
  "unchanged st disk =
     (case diskstats st disk of
        None \<Rightarrow> False
      | Some cur \<Rightarrow>
          (case diskstats_prev st disk of
             None \<Rightarrow> False
           | Some prev \<Rightarrow> DiskSectors_eq prev cur))"

definition set_state :: "string \<Rightarrow> state_label \<Rightarrow> real \<Rightarrow> daemon \<Rightarrow> daemon" where
  "set_state disk l now st =
     st\<lparr>disk_states := (disk_states st)(disk \<mapsto> \<lparr>state = l, timestamp = now\<rparr>)\<rparr>"

text \<open>The body of the loop of \<^verbatim>\<open>compare\<close>. In the first branch \<^verbatim>\<open>self.disk_states[disk]\<close>
  is read with no test that the key is there.\<close>

definition compare_disk :: "real \<Rightarrow> string \<Rightarrow> daemon \<Rightarrow> error + daemon" where
  "compare_disk now disk st =
     (if unchanged st disk then
        (case disk_states st disk of
           None \<Rightarrow> Inl KeyError
         | Some disk_state \<Rightarrow>
             if state disk_state \<noteq> IDLE \<and> state disk_state \<noteq> POWEROFF
             then Inr (syslog LOG_DEBUG (''Disk '' @ disk @ '' state changed to IDLE'')
                         (set_state disk IDLE now st))
             else Inr st)
      else
        (case disk_states st disk of
           None \<Rightarrow>
             Inr (syslog LOG_DEBUG (''Disk '' @ disk @ '' state changed to ACTIVE'')
                    (set_state disk ACTIVE now st))
         | Some disk_state \<Rightarrow>
             if state disk_state \<noteq> ACTIVE
             then Inr (syslog LOG_DEBUG (''Disk '' @ disk @ '' state changed to ACTIVE'')
                         (set_state disk ACTIVE now st))
             else Inr st))"

fun compare_loop :: "(nat \<Rightarrow> real) \<Rightarrow> nat \<Rightarrow> string list \<Rightarrow> daemon \<Rightarrow> error + daemon" where
  "compare_loop clock i [] st = Inr st"
| "compare_loop clock i (disk # rest) st =
     (case compare_disk (clock i) disk st of
        Inl e \<Rightarrow> Inl e
      | Inr st' \<Rightarrow> compare_loop clock (Suc i) rest st')"

definition compare :: "world \<Rightarrow> daemon \<Rightarrow> error + daemon" where
  "compare w st = compare_loop (now_compare w) 0 (disks st) st"

subsection \<open>The power controller\<close>

definition smartctl_argv :: "string \<Rightarrow> string list" where
  "smartctl_argv disk = [''smartctl'', ''-n'', ''standby'', ''/dev/'' @ disk]"

definition hdparm_argv :: "string \<Rightarrow> string list" where
  "hdparm_argv disk = [''hdparm'', ''-yY'', ''/dev/'' @ disk]"

text \<open>The body of the loop of \<^verbatim>\<open>poweroff\<close>; \<open>smartctl_rc\<close> and \<open>hdparm_rc\<close> are the
  \<^verbatim>\<open>returncode\<close> of the two processes. The last assignment changes the field
  \<^verbatim>\<open>state\<close> of the stored object and nothing else.\<close>

definition poweroff_disk :: "real \<Rightarrow> int \<Rightarrow> int \<Rightarrow> string \<Rightarrow> daemon \<Rightarrow> daemon" where
  "poweroff_disk now smartctl_rc hdparm_rc disk st =
     (case disk_states st disk of
        None \<Rightarrow> st
      | Some disk_state \<Rightarrow>
          if (state disk_state = IDLE \<or> state disk_state = POWEROFF)
             \<and> now - timestamp disk_state \<ge> real_of_int (timeout st)
          then
            (let st1 = popen (smartctl_argv disk) st;
                 st2 = (if smartctl_rc \<noteq> 2
                        then (let st' = popen (hdparm_argv disk) st1
                              in if hdparm_rc \<noteq> 0
                                 then syslog LOG_ERR (''hdparm failed for '' @ disk) st'
                                 else st')
                        else st1);
                 st3 = (if state disk_state \<noteq> POWEROFF
                        then syslog LOG_DEBUG (''Disk '' @ disk @ '' state changed to POWEROFF'') st2
                        else st2)
             in st3\<lparr>disk_states := (disk_states st3)(disk \<mapsto> disk_state\<lparr>state := POWEROFF\<rparr>)\<rparr>)
          else st)"

fun poweroff_loop :: "world \<Rightarrow> nat \<Rightarrow> string list \<Rightarrow> daemon \<Rightarrow> daemon" where
  "poweroff_loop w i [] st = st"
| "poweroff_loop w i (disk # rest) st =
     poweroff_loop w (Suc i) rest
       (poweroff_disk (now_poweroff w i) (smartctl_returncode w i) (hdparm_returncode w i) disk st)"

definition poweroff :: "world \<Rightarrow> daemon \<Rightarrow> daemon" where
  "poweroff w st = poweroff_loop w 0 (disks st) st"

subsection \<open>The poll loop\<close>

text \<open>One iteration of the loop of \<^verbatim>\<open>run\<close> (the sleep apart).\<close>

definition cycle :: "world \<Rightarrow> daemon \<Rightarrow> error + daemon" where
  "cycle w st =
     (case poll w st of
        Inl e \<Rightarrow> Inl e
      | Inr st1 \<Rightarrow>
          (case compare w st1 of
             Inl e \<Rightarrow> Inl e
           | Inr st2 \<Rightarrow> Inr (poweroff w st2)))"

text \<open>The loop of \<^verbatim>\<open>run\<close> never ends by itself. \<open>run ws st\<close> is its first \<open>length ws\<close>
  iterations, the \<open>k\<close>-th in the world \<open>ws ! k\<close>: the state they leave, or the exception
  that left the loop, and with it the program.\<close>

fun run :: "world list \<Rightarrow> daemon \<Rightarrow> error + daemon" where
  "run [] st = Inr st"
| "run (w # ws) st =
     (case cycle w st of
        Inl e \<Rightarrow> Inl e
      | Inr st' \<Rightarrow> run ws st')"

subsection \<open>Startup\<close>

text \<open>\<^verbatim>\<open>re.match("[sh]d[a-z]\Z", dev)\<close>.\<close>

definition is_disk_name :: "string \<Rightarrow> bool" where
  "is_disk_name dev =
     (case dev of
        [a, b, c] \<Rightarrow>
          (a = CHR ''s'' \<or> a = CHR ''h'') \<and> b = CHR ''d''
          \<and> (97::nat) \<le> of_char c \<and> of_char c \<le> (122::nat)
      | _ \<Rightarrow> False)"

definition normalize_name :: "string \<Rightarrow> string" where
  "normalize_name disk =
     (let disk' = strip disk
      in if CHR ''/'' \<in> set disk' then last (split CHR ''/'' disk') else disk')"

text \<open>\<^verbatim>\<open>sep.join(xs)\<close>.\<close>

fun join :: "string \<Rightarrow> string list \<Rightarrow> string" where
  "join sep [] = []"
| "join sep [x] = x"
| "join sep (x # y # ys) = x @ sep @ join sep (y # ys)"

text \<open>\<^verbatim>\<open>str(n)\<close> for an integer.\<close>

function str_nat :: "nat \<Rightarrow> string" where
  "str_nat n =
     (if n < 10 then [char_of (48 + n)]
      else str_nat (n div 10) @ [char_of (48 + n mod 10)])"
  by pat_completeness auto
termination
  by (relation "measure id") auto

definition str :: "int \<Rightarrow> string" where
  "str n = (if n < 0 then CHR ''-'' # str_nat (nat (- n)) else str_nat (nat n))"

text \<open>\<^verbatim>\<open>int(s)\<close> for a string, on the decimal literals written in ASCII: spaces around,
  one sign, digits, and single underscores between digits. \<open>None\<close> is \<^verbatim>\<open>ValueError\<close>.
  Digits of other scripts, which \<^verbatim>\<open>int\<close> reads too, and the limit recent interpreters put
  on the number of digits are left out.\<close>

definition is_digit :: "char \<Rightarrow> bool" where
  "is_digit c = ((48::nat) \<le> of_char c \<and> of_char c \<le> (57::nat))"

fun digits_ok :: "string \<Rightarrow> bool" where
  "digits_ok [] = False"
| "digits_ok [c] = is_digit c"
| "digits_ok (c # d # cs) =
     (is_digit c \<and> (if d = CHR ''_'' then digits_ok cs else digits_ok (d # cs)))"

definition digits_value :: "string \<Rightarrow> int" where
  "digits_value s =
     fold (\<lambda>c acc. if c = CHR ''_'' then acc else 10 * acc + (of_char c - 48)) s 0"

definition py_int :: "string \<Rightarrow> int option" where
  "py_int s =
     (let t = strip s
      in case t of
           [] \<Rightarrow> None
         | c # cs \<Rightarrow>
             if c = CHR ''-'' then (if digits_ok cs then Some (- digits_value cs) else None)
             else if c = CHR ''+'' then (if digits_ok cs then Some (digits_value cs) else None)
             else if digits_ok t then Some (digits_value t) else None)"

definition DEFAULT_TIMEOUT :: int where
  "DEFAULT_TIMEOUT = 1800"

definition DEFAULT_POLLING_INTERVAL :: int where
  "DEFAULT_POLLING_INTERVAL = 10"

text \<open>
  \<^verbatim>\<open>DisksPowerOff.__init__\<close>. \<open>section\<close> is the section \<^verbatim>\<open>disks-poweroff\<close> of the
  configuration as \<^verbatim>\<open>configparser\<close> read it (\<open>None\<close> when the file has no such section),
  \<open>listdir\<close> is \<^verbatim>\<open>os.listdir('/dev')\<close>. Without the section the first
  \<^verbatim>\<open>config[PROGRAM_NAME]\<close> raises \<^verbatim>\<open>KeyError\<close> inside the \<^verbatim>\<open>try\<close>, the second one outside.
\<close>

definition configured_disks ::
  "(string \<rightharpoonup> string) option \<Rightarrow> string list \<Rightarrow> string list \<times> event list" where
  "configured_disks section possible_devices =
     (case (case section of None \<Rightarrow> None | Some sec \<Rightarrow> sec ''devices'') of
        Some v \<Rightarrow> (split CHR '','' (strip v), [])
      | None \<Rightarrow>
          (possible_devices,
           [Syslog LOG_WARNING
              (''Missing '' @ [CHR 0x27] @ ''devices'' @ [CHR 0x27]
               @ '' section in config. Using all possible devices'')]))"

definition init :: "(string \<rightharpoonup> string) option \<Rightarrow> string list \<Rightarrow> error + daemon" where
  "init section listdir =
     (let possible_devices = filter is_disk_name listdir;
          (disks0, log0) = configured_disks section possible_devices;
          disks1 = map normalize_name disks0;
          disks' = filter (\<lambda>disk. disk \<in> set possible_devices) disks1;
          log1 = log0 @ [Syslog LOG_INFO (''Working with disks: '' @ join '', '' disks')]
      in case section of
           None \<Rightarrow> Inl KeyError
         | Some sec \<Rightarrow>
             (let timeout_str = (case sec ''timeout'' of
                                   None \<Rightarrow> str DEFAULT_TIMEOUT | Some v \<Rightarrow> v);
                  (timeout', log2) =
                    (case py_int timeout_str of
                       Some n \<Rightarrow> (n, log1)
                     | None \<Rightarrow>
                         (DEFAULT_TIMEOUT,
                          log1 @ [Syslog LOG_WARNING
                            (''Invalid config record for '' @ [CHR 0x27] @ ''timeout''
                             @ [CHR 0x27] @ ''setting default value ''
                             @ str DEFAULT_TIMEOUT @ '' seconds'')]));
                  polling_str = (case sec ''polling_interval'' of
                                   None \<Rightarrow> str DEFAULT_POLLING_INTERVAL | Some v \<Rightarrow> v);
                  (polling_interval', log3) =
                    (case py_int polling_str of
                       Some n \<Rightarrow> (n, log2)
                     | None \<Rightarrow>
                         (DEFAULT_POLLING_INTERVAL,
                          log2 @ [Syslog LOG_WARNING
                            (''Invalid config record for '' @ [CHR 0x27] @ ''polling_interval''
                             @ [CHR 0x27] @ '', setting default value ''
                             @ str DEFAULT_POLLING_INTERVAL @ '' seconds'')]))
              in Inr \<lparr>disks = disks',
                      timeout = timeout',
                      polling_interval = polling_interval',
                      diskstats = Map.empty,
                      diskstats_prev = Map.empty,
                      disk_states = Map.empty,
                      trace = log3 @ [Syslog LOG_INFO
                        (''Running with parameters: '' @ ''timeout='' @ str timeout'
                         @ '', polling_interval='' @ str polling_interval')]\<rparr>))"

section \<open>The earlier version\<close>

text \<open>
  \<^verbatim>\<open>src/disks-poweroff.py\<close>. A snapshot is the list \<^verbatim>\<open>[sectors_read, sectors_written]\<close>, a
  status is the list \<^verbatim>\<open>[label, timestamp]\<close> (a pair here), and changes of state set the
  flag \<^verbatim>\<open>dump_log\<close>, which \<^verbatim>\<open>run\<close> turns into one line of the log.
\<close>

record daemon_old =
  disks_old :: "string list"
  timeout_old :: int
  polling_interval_old :: int
  diskstats_old :: "string \<rightharpoonup> string list"
  diskstats_prev_old :: "string \<rightharpoonup> string list"
  disk_statuses :: "string \<rightharpoonup> state_label \<times> real"
  dump_log :: bool
  trace_old :: "event list"

definition syslog_old :: "priority \<Rightarrow> string \<Rightarrow> daemon_old \<Rightarrow> daemon_old" where
  "syslog_old p m st = st\<lparr>trace_old := trace_old st @ [Syslog p m]\<rparr>"

definition popen_old :: "string list \<Rightarrow> daemon_old \<Rightarrow> daemon_old" where
  "popen_old argv st = st\<lparr>trace_old := trace_old st @ [Popen argv]\<rparr>"

text \<open>\<^verbatim>\<open>d.get(k, default)\<close>.\<close>

definition get :: "('k \<rightharpoonup> 'v) \<Rightarrow> 'k \<Rightarrow> 'v \<Rightarrow> 'v" where
  "get d k dflt = (case d k of None \<Rightarrow> dflt | Some v \<Rightarrow> v)"

text \<open>\<^verbatim>\<open>self.disk_statuses.get(disk, [None, None])[0]\<close>: \<open>None\<close> is Python's \<^verbatim>\<open>None\<close>.\<close>

definition status_label :: "daemon_old \<Rightarrow> string \<Rightarrow> state_label option" where
  "status_label st disk =
     (case disk_statuses st disk of None \<Rightarrow> None | Some status \<Rightarrow> Some (fst status))"

fun poll_lines_old :: "string list \<Rightarrow> daemon_old \<Rightarrow> error + daemon_old" where
  "poll_lines_old [] st = Inr st"
| "poll_lines_old (line # rest) st =
     (case parse_diskstats_line line of
        Inl e \<Rightarrow> Inl e
      | Inr (disk, sectors_read', sectors_written') \<Rightarrow>
          poll_lines_old rest
            (if disk \<in> set (disks_old st)
             then st\<lparr>diskstats_old :=
                    (diskstats_old st)(disk \<mapsto> [sectors_read', sectors_written'])\<rparr>
             else st))"

definition poll_old :: "world \<Rightarrow> daemon_old \<Rightarrow> error + daemon_old" where
  "poll_old w st =
     poll_lines_old (diskstats_lines w)
       (st\<lparr>diskstats_prev_old := diskstats_old st, diskstats_old := Map.empty\<rparr>)"

text \<open>The condition of the earlier \<^verbatim>\<open>compare\<close>.\<close>

definition unchanged_old :: "daemon_old \<Rightarrow> string \<Rightarrow> bool" where
  "unchanged_old st disk =
     (get (diskstats_prev_old st) disk [] = get (diskstats_old st) disk []
      \<and> get (diskstats_old st) disk [] \<noteq> [])"

text \<open>The body of the loop of the earlier \<^verbatim>\<open>compare\<close>: in the second branch the status is
  written whatever it was.\<close>

definition compare_disk_old :: "real \<Rightarrow> string \<Rightarrow> daemon_old \<Rightarrow> daemon_old" where
  "compare_disk_old now disk st =
     (if unchanged_old st disk then
        (if status_label st disk \<noteq> Some IDLE \<and> status_label st disk \<noteq> Some POWEROFF
         then st\<lparr>dump_log := True,
                 disk_statuses := (disk_statuses st)(disk \<mapsto> (IDLE, now))\<rparr>
         else st)
      else
        (let st' = (if status_label st disk \<noteq> Some ACTIVE then st\<lparr>dump_log := True\<rparr> else st)
         in st'\<lparr>disk_statuses := (disk_statuses st')(disk \<mapsto> (ACTIVE, now))\<rparr>))"

fun compare_loop_old :: "(nat \<Rightarrow> real) \<Rightarrow> nat \<Rightarrow> string list \<Rightarrow> daemon_old \<Rightarrow> daemon_old" where
  "compare_loop_old clock i [] st = st"
| "compare_loop_old clock i (disk # rest) st =
     compare_loop_old clock (Suc i) rest (compare_disk_old (clock i) disk st)"

definition compare_old :: "world \<Rightarrow> daemon_old \<Rightarrow> daemon_old" where
  "compare_old w st = compare_loop_old (now_compare w) 0 (disks_old st) st"

text \<open>The body of the loop of the earlier \<^verbatim>\<open>poweroff\<close>. The default of the \<^verbatim>\<open>get\<close> takes a
  reading of the clock of its own, which is never compared nor stored; \<open>now\<close> stands
  for it too. \<^verbatim>\<open>self.disk_statuses[disk]\<close> is read with no test that the key is there.\<close>

definition poweroff_disk_old ::
  "real \<Rightarrow> int \<Rightarrow> int \<Rightarrow> string \<Rightarrow> daemon_old \<Rightarrow> error + daemon_old" where
  "poweroff_disk_old now smartctl_rc hdparm_rc disk st =
     (let disk_status = get (disk_statuses st) disk (ACTIVE, now)
      in if (fst disk_status = IDLE \<or> fst disk_status = POWEROFF)
            \<and> now - snd disk_status \<ge> real_of_int (timeout_old st)
         then
           (let st1 = popen_old (smartctl_argv disk) st;
                st2 = (if smartctl_rc \<noteq> 2
                       then (let st' = popen_old (hdparm_argv disk) st1
                             in if hdparm_rc \<noteq> 0
                                then syslog_old LOG_ERR (''hdparm failed for '' @ disk) st'
                                else st')
                       else st1)
            in case disk_statuses st2 disk of
                 None \<Rightarrow> Inl KeyError
               | Some status \<Rightarrow>
                   (let st3 = (if fst status \<noteq> POWEROFF then st2\<lparr>dump_log := True\<rparr> else st2)
                    in Inr (st3\<lparr>disk_statuses :=
                              (disk_statuses st3)(disk \<mapsto> (POWEROFF, snd status))\<rparr>)))
         else Inr st)"

fun poweroff_loop_old :: "world \<Rightarrow> nat \<Rightarrow> string list \<Rightarrow> daemon_old \<Rightarrow> error + daemon_old" where
  "poweroff_loop_old w i [] st = Inr st"
| "poweroff_loop_old w i (disk # rest) st =
     (case poweroff_disk_old (now_poweroff w i) (smartctl_returncode w i)
             (hdparm_returncode w i) disk st of
        Inl e \<Rightarrow> Inl e
      | Inr st' \<Rightarrow> poweroff_loop_old w (Suc i) rest st')"

definition poweroff_old :: "world \<Rightarrow> daemon_old \<Rightarrow> error + daemon_old" where
  "poweroff_old w st = poweroff_loop_old w 0 (disks_old st) st"

definition label_str :: "state_label \<Rightarrow> string" where
  "label_str l = (case l of ACTIVE \<Rightarrow> ''ACTIVE'' | IDLE \<Rightarrow> ''IDLE'' | POWEROFF \<Rightarrow> ''POWEROFF'')"

text \<open>The keys of \<^verbatim>\<open>self.disk_statuses\<close> in the order of their insertion. Keys are inserted by
  \<^verbatim>\<open>compare\<close> only, in the order of \<^verbatim>\<open>self.disks\<close>, and its first run inserts each of
  them: the order is the one of the first occurrences in \<^verbatim>\<open>self.disks\<close>.\<close>

definition status_keys :: "daemon_old \<Rightarrow> string list" where
  "status_keys st =
     filter (\<lambda>k. disk_statuses st k \<noteq> None) (rev (remdups (rev (disks_old st))))"

definition dump_message :: "daemon_old \<Rightarrow> string" where
  "dump_message st =
     ''Disks state changed: ''
     @ join '' '' (map (\<lambda>k. k @ '': ''
                          @ (case status_label st k of None \<Rightarrow> ''None'' | Some l \<Rightarrow> label_str l)
                          @ ''; '')
                     (status_keys st))"

text \<open>One iteration of the loop of the earlier \<^verbatim>\<open>run\<close>.\<close>

definition cycle_old :: "world \<Rightarrow> daemon_old \<Rightarrow> error + daemon_old" where
  "cycle_old w st =
     (case poll_old w st of
        Inl e \<Rightarrow> Inl e
      | Inr st1 \<Rightarrow>
          (case poweroff_old w (compare_old w st1) of
             Inl e \<Rightarrow> Inl e
           | Inr st2 \<Rightarrow>
               Inr (if dump_log st2
                    then (syslog_old LOG_INFO (dump_message st2) st2)\<lparr>dump_log := False\<rparr>
                    else st2)))"

fun run_old :: "world list \<Rightarrow> daemon_old \<Rightarrow> error + daemon_old" where
  "run_old [] st = Inr st"
| "run_old (w # ws) st =
     (case cycle_old w st of
        Inl e \<Rightarrow> Inl e
      | Inr st' \<Rightarrow> run_old ws st')"

text \<open>The earlier \<^verbatim>\<open>__init__\<close>: the same resolution of the disks (\<^verbatim>\<open>normalize_disk\<close> has the
  body of \<^verbatim>\<open>normalize_name\<close>), the defaults \<^verbatim>\<open>"1800"\<close> and \<^verbatim>\<open>"5"\<close>.\<close>

definition normalize_disk :: "string \<Rightarrow> string" where
  "normalize_disk disk =
     (let disk' = strip disk
      in if CHR ''/'' \<in> set disk' then last (split CHR ''/'' disk') else disk')"

definition init_old :: "(string \<rightharpoonup> string) option \<Rightarrow> string list \<Rightarrow> error + daemon_old" where
  "init_old section listdir =
     (let possible_devices = filter is_disk_name listdir;
          (disks0, log0) = configured_disks section possible_devices;
          disks1 = map normalize_disk disks0;
          disks' = filter (\<lambda>disk. disk \<in> set possible_devices) disks1;
          log1 = log0 @ [Syslog LOG_INFO (''Working with disks: '' @ join '', '' disks')]
      in case section of
           None \<Rightarrow> Inl KeyError
         | Some sec \<Rightarrow>
             (let timeout_str = (case sec ''timeout'' of None \<Rightarrow> ''1800'' | Some v \<Rightarrow> v);
                  (timeout', log2) =
                    (case py_int timeout_str of
                       Some n \<Rightarrow> (n, log1)
                     | None \<Rightarrow>
                         (1800,
                          log1 @ [Syslog LOG_WARNING
                            (''Invalid config record for '' @ [CHR 0x27] @ ''timeout''
                             @ [CHR 0x27] @ '', setting default value 1800 seconds'')]));
                  polling_str = (case sec ''polling_interval'' of None \<Rightarrow> ''5'' | Some v \<Rightarrow> v);
                  (polling_interval', log3) =
                    (case py_int polling_str of
                       Some n \<Rightarrow> (n, log2)
                     | None \<Rightarrow>
                         (5,
                          log2 @ [Syslog LOG_WARNING
                            (''Invalid config record for '' @ [CHR 0x27] @ ''polling_interval''
                             @ [CHR 0x27] @ '', setting default value 5 seconds'')]))
              in Inr \<lparr>disks_old = disks',
                      timeout_old = timeout',
                      polling_interval_old = polling_interval',
                      diskstats_old = Map.empty,
                      diskstats_prev_old = Map.empty,
                      disk_statuses = Map.empty,
                      dump_log = False,
                      trace_old = log3\<rparr>))"

section \<open>Observations and example inputs\<close>

text \<open>The standby queries and spin-down commands for one disk among the events of a
  trace, in their order.\<close>

definition commands_for :: "string \<Rightarrow> event list \<Rightarrow> event list" where
  "commands_for disk evs =
     filter (\<lambda>e. e = Popen (smartctl_argv disk) \<or> e = Popen (hdparm_argv disk)) evs"

text \<open>All the processes started, in their order.\<close>

definition commands :: "event list \<Rightarrow> string list list" where
  "commands evs = concat (map (\<lambda>e. case e of Popen argv \<Rightarrow> [argv] | Syslog p m \<Rightarrow> []) evs)"

text \<open>The line of the docstring of \<^verbatim>\<open>parse_diskstats_line\<close>, as \<^verbatim>\<open>readlines\<close> gives it, and
  the same counters for a second disk.\<close>

definition sda_line :: string where
  "sda_line = ''   8       0 sda 19912 11150 4603573 10996 76961 88315 4666256 72070 0 92637 83075 0 0 0 0 13 8'' @ [CHR 0x0A]"

definition sdb_line :: string where
  "sdb_line = ''   8      16 sdb 19912 11150 4603573 10996 76961 88315 4666256 72070 0 92637 83075 0 0 0 0 13 8'' @ [CHR 0x0A]"

text \<open>A world where the clock reads \<open>t\<close> throughout, \<^verbatim>\<open>smartctl\<close> exits with \<open>a\<close> and
  \<^verbatim>\<open>hdparm\<close> with \<open>b\<close>.\<close>

definition still_world :: "string list \<Rightarrow> real \<Rightarrow> int \<Rightarrow> int \<Rightarrow> world" where
  "still_world ls t a b =
     \<lparr>diskstats_lines = ls, now_compare = (\<lambda>i. t), now_poweroff = (\<lambda>i. t),
      smartctl_returncode = (\<lambda>i. a), hdparm_returncode = (\<lambda>i. b)\<rparr>"

text \<open>The daemon right after \<^verbatim>\<open>__init__\<close> for the disks \<open>ds\<close> and the default settings,
  and the same daemon with one disk idle since \<open>t\<close>, its counters those of \<open>sda_line\<close>.\<close>

definition fresh :: "string list \<Rightarrow> daemon" where
  "fresh ds =
     \<lparr>disks = ds, timeout = 1800, polling_interval = 10, diskstats = Map.empty,
      diskstats_prev = Map.empty, disk_states = Map.empty, trace = []\<rparr>"

definition idle_since :: "string list \<Rightarrow> string \<Rightarrow> real \<Rightarrow> daemon" where
  "idle_since ds disk t =
     (fresh ds)\<lparr>diskstats := [disk \<mapsto> \<lparr>sectors_read = ''4603573'', sectors_written = ''4666256''\<rparr>],
               disk_states := [disk \<mapsto> \<lparr>state = IDLE, timestamp = t\<rparr>]\<rparr>"

definition fresh_old :: "string list \<Rightarrow> daemon_old" where
  "fresh_old ds =
     \<lparr>disks_old = ds, timeout_old = 1800, polling_interval_old = 5, diskstats_old = Map.empty,
      diskstats_prev_old = Map.empty, disk_statuses = Map.empty, dump_log = False,
      trace_old = []\<rparr>"

text \<open>The record of a disk, and the commands of a trace, as functions of the state.\<close>

definition record_of :: "string \<Rightarrow> daemon \<Rightarrow> DiskState option" where
  "record_of disk st = disk_states st disk"

definition issued :: "daemon \<Rightarrow> string list list" where
  "issued st = commands (trace st)"





text \<open>A line cut after its fourth field.\<close>

definition short_line :: string where
  "short_line = ''   8       0 sda 19912'' @ [CHR 0x0A]"

section \<open>Comparing the two versions\<close>

text \<open>The list the earlier version keeps for a \<^verbatim>\<open>DiskSectors\<close> of the current one.\<close>

definition snapshot_of :: "DiskSectors \<Rightarrow> string list" where
  "snapshot_of s = [sectors_read s, sectors_written s]"

text \<open>The two snapshot maps hold the same tokens for the same devices.\<close>

definition same_snapshots :: "(string \<rightharpoonup> string list) \<Rightarrow> (string \<rightharpoonup> DiskSectors) \<Rightarrow> bool" where
  "same_snapshots old new = (\<forall>disk. old disk = map_option snapshot_of (new disk))"

text \<open>A status of the earlier version and a record of the current one: both absent, or
  the same label and, unless the label is \<^verbatim>\<open>ACTIVE\<close>, the same timestamp.\<close>

definition same_status :: "(state_label \<times> real) option \<Rightarrow> DiskState option \<Rightarrow> bool" where
  "same_status old new =
     (case old of
        None \<Rightarrow> new = None
      | Some (l, t) \<Rightarrow>
          (case new of
             None \<Rightarrow> False
           | Some ds \<Rightarrow> l = state ds \<and> (l \<noteq> ACTIVE \<longrightarrow> t = timestamp ds)))"

text \<open>The two daemons track the same devices with the same timeout, hold the same
  snapshots, the same status for every device, and have started the same processes in
  the same order.\<close>

definition versions_agree :: "daemon_old \<Rightarrow> daemon \<Rightarrow> bool" where
  "versions_agree so sn =
     (disks_old so = disks sn \<and> timeout_old so = timeout sn
      \<and> same_snapshots (diskstats_old so) (diskstats sn)
      \<and> same_snapshots (diskstats_prev_old so) (diskstats_prev sn)
      \<and> (\<forall>disk. same_status (disk_statuses so disk) (disk_states sn disk))
      \<and> commands (trace_old so) = commands (trace sn))"

text \<open>The record of a disk in the earlier version, and the processes it started.\<close>

definition status_of :: "string \<Rightarrow> daemon_old \<Rightarrow> (state_label \<times> real) option" where
  "status_of disk st = disk_statuses st disk"

definition issued_old :: "daemon_old \<Rightarrow> string list list" where
  "issued_old st = commands (trace_old st)"

text \<open>The status the earlier version would keep for a record of the current one.\<close>

definition status_of_record :: "DiskState \<Rightarrow> state_label \<times> real" where
  "status_of_record ds = (state ds, timestamp ds)"

text \<open>Two daemons right after startup: the same devices and timeout, every dictionary
  empty, and the same processes started so far.\<close>

definition started_alike :: "daemon_old \<Rightarrow> daemon \<Rightarrow> bool" where
  "started_alike so sn =
     (disks_old so = disks sn \<and> timeout_old so = timeout sn
      \<and> diskstats_old so = Map.empty \<and> diskstats_prev_old so = Map.empty
      \<and> disk_statuses so = Map.empty
      \<and> diskstats sn = Map.empty \<and> diskstats_prev sn = Map.empty
      \<and> disk_states sn = Map.empty
      \<and> commands (trace_old so) = commands (trace sn))"

text \<open>Every device with a current snapshot has a record.\<close>

definition recorded :: "daemon \<Rightarrow> bool" where
  "recorded sn = (\<forall>d. diskstats sn d \<noteq> None \<longrightarrow> disk_states sn d \<noteq> None)"

text \<open>Five cycles for one disk: at 0, at 10 with the disk missing from the counter
  source, at 20, 30 and 1830; both commands exit with 0.\<close>

definition five_cycles :: "world list" where
  "five_cycles =
     [still_world [sda_line] 0 0 0, still_world [] 10 0 0, still_world [sda_line] 20 0 0,
      still_world [sda_line] 30 0 0, still_world [sda_line] 1830 0 0]"

text \<open>One disk, active since \<open>t\<close>, with no snapshot yet, in the two versions.\<close>

definition active_since :: "string \<Rightarrow> real \<Rightarrow> daemon" where
  "active_since disk t = set_state disk ACTIVE t (fresh [disk])"

definition active_since_old :: "string \<Rightarrow> real \<Rightarrow> daemon_old" where
  "active_since_old disk t = (fresh_old [disk])\<lparr>disk_statuses := [disk \<mapsto> (ACTIVE, t)]\<rparr>"

section \<open>What each step leaves alone\<close>

lemma smartctl_argv_eq [simp]: "smartctl_argv a = smartctl_argv b \<longleftrightarrow> a = b"
  by (simp add: smartctl_argv_def)

lemma hdparm_argv_eq [simp]: "hdparm_argv a = hdparm_argv b \<longleftrightarrow> a = b"
  by (simp add: hdparm_argv_def)

lemma smartctl_not_hdparm [simp]:
  "smartctl_argv a \<noteq> hdparm_argv b" "hdparm_argv b \<noteq> smartctl_argv a"
  by (simp_all add: smartctl_argv_def hdparm_argv_def)

lemma commands_for_append [simp]:
  "commands_for d (xs @ ys) = commands_for d xs @ commands_for d ys"
  by (simp add: commands_for_def)

lemma commands_for_Nil [simp]: "commands_for d [] = []"
  by (simp add: commands_for_def)

lemma commands_for_Syslog [simp]: "commands_for d (Syslog p m # xs) = commands_for d xs"
  by (simp add: commands_for_def)

lemma commands_for_Popen [simp]:
  "commands_for d (Popen argv # xs) =
     (if argv = smartctl_argv d \<or> argv = hdparm_argv d then Popen argv # commands_for d xs
      else commands_for d xs)"
  by (simp add: commands_for_def)

lemma commands_append [simp]: "commands (xs @ ys) = commands xs @ commands ys"
  by (simp add: commands_def)

lemma commands_simps [simp]:
  "commands [] = []"
  "commands (Syslog p m # xs) = commands xs"
  "commands (Popen argv # xs) = argv # commands xs"
  by (simp_all add: commands_def)

text \<open>The power controller touches the trace and the state label of its disk.\<close>

lemma poweroff_disk_fields [simp]:
  "disks (poweroff_disk now a b disk st) = disks st"
  "timeout (poweroff_disk now a b disk st) = timeout st"
  "polling_interval (poweroff_disk now a b disk st) = polling_interval st"
  "diskstats (poweroff_disk now a b disk st) = diskstats st"
  "diskstats_prev (poweroff_disk now a b disk st) = diskstats_prev st"
  by (simp_all add: poweroff_disk_def popen_def syslog_def Let_def split: option.splits)



lemma poweroff_disk_skip:
  "disk_states st d = None
   \<or> (\<exists>ds. disk_states st d = Some ds
          \<and> (state ds = ACTIVE \<or> now - timestamp ds < real_of_int (timeout st))) \<Longrightarrow>
   poweroff_disk now a b d st = st"
  by (cases "disk_states st d") (auto simp: poweroff_disk_def)

lemma poweroff_disk_due:
  assumes "disk_states st d = Some ds"
    and "state ds = IDLE \<or> state ds = POWEROFF"
    and "real_of_int (timeout st) \<le> now - timestamp ds"
  shows "disk_states (poweroff_disk now a b d st) d = Some (ds\<lparr>state := POWEROFF\<rparr>)"
    and "commands_for d (trace (poweroff_disk now a b d st)) =
           commands_for d (trace st) @ Popen (smartctl_argv d)
             # (if a = 2 then [] else [Popen (hdparm_argv d)])"
    and "trace (poweroff_disk now a b d st) =
           trace st @ Popen (smartctl_argv d)
             # (if a = 2 then []
                else Popen (hdparm_argv d)
                       # (if b = 0 then [] else [Syslog LOG_ERR (''hdparm failed for '' @ d)]))
             @ (if state ds = POWEROFF then []
                else [Syslog LOG_DEBUG (''Disk '' @ d @ '' state changed to POWEROFF'')])"
  using assms by (auto simp: poweroff_disk_def popen_def syslog_def Let_def)

lemma poweroff_disk_timestamp:
  "disk_states st d = Some ds \<Longrightarrow>
   \<exists>ds'. disk_states (poweroff_disk now a b disk st) d = Some ds'
         \<and> timestamp ds' = timestamp ds
         \<and> (state ds' = state ds \<or> state ds' = POWEROFF \<and> state ds = IDLE)"
  by (cases "state ds")
     (auto simp: poweroff_disk_def popen_def syslog_def Let_def split: option.splits)

lemma poweroff_disk_None:
  "disk_states st d = None \<Longrightarrow> disk_states (poweroff_disk now a b disk st) d = None"
  by (auto simp: poweroff_disk_def popen_def syslog_def Let_def split: option.splits)

lemma poweroff_loop_fields [simp]:
  "disks (poweroff_loop w i ds st) = disks st"
  "timeout (poweroff_loop w i ds st) = timeout st"
  "polling_interval (poweroff_loop w i ds st) = polling_interval st"
  "diskstats (poweroff_loop w i ds st) = diskstats st"
  "diskstats_prev (poweroff_loop w i ds st) = diskstats_prev st"
  by (induction ds arbitrary: i st; simp)+


lemma poweroff_loop_append:
  "poweroff_loop w i (xs @ ys) st = poweroff_loop w (i + length xs) ys (poweroff_loop w i xs st)"
  by (induction xs arbitrary: i st) simp_all

lemma poweroff_loop_timestamp:
  "disk_states st d = Some ds \<Longrightarrow>
   \<exists>ds'. disk_states (poweroff_loop w i xs st) d = Some ds'
         \<and> timestamp ds' = timestamp ds
         \<and> (state ds' = state ds \<or> state ds' = POWEROFF \<and> state ds = IDLE)"
proof (induction xs arbitrary: i st ds)
  case Nil
  then show ?case by simp
next
  case (Cons x xs)
  let ?st = "poweroff_disk (now_poweroff w i) (smartctl_returncode w i) (hdparm_returncode w i) x st"
  from poweroff_disk_timestamp [OF Cons.prems]
  obtain ds1 where 1: "disk_states ?st d = Some ds1" "timestamp ds1 = timestamp ds"
    "state ds1 = state ds \<or> state ds1 = POWEROFF \<and> state ds = IDLE"
    by blast
  from Cons.IH [OF 1(1), of "Suc i"]
  obtain ds2 where 2: "disk_states (poweroff_loop w (Suc i) xs ?st) d = Some ds2"
    "timestamp ds2 = timestamp ds1"
    "state ds2 = state ds1 \<or> state ds2 = POWEROFF \<and> state ds1 = IDLE"
    by blast
  from 1 2 show ?case by auto
qed

lemma poweroff_loop_None:
  "disk_states st d = None \<Longrightarrow> disk_states (poweroff_loop w i xs st) d = None"
  by (induction xs arbitrary: i st) (simp_all add: poweroff_disk_None)


section \<open>Evaluating the examples\<close>

lemma parse_sda_line: "parse_diskstats_line sda_line = Inr (''sda'', ''4603573'', ''4666256'')"
  by (simp add: sda_line_def parse_diskstats_line_def line_fields_def strip_def is_space_def
        index_def)

lemma parse_sdb_line: "parse_diskstats_line sdb_line = Inr (''sdb'', ''4603573'', ''4666256'')"
  by (simp add: sdb_line_def parse_diskstats_line_def line_fields_def strip_def is_space_def
        index_def)

lemma str_defaults: "str 1800 = ''1800''" "str 10 = ''10''"
  by code_simp+


lemmas eval_defs =
  run.simps cycle_def poll_def poll_lines.simps compare_def compare_loop.simps compare_disk_def
  unchanged_def DiskSectors_eq_def set_state_def syslog_def popen_def poweroff_def
  poweroff_loop.simps poweroff_disk_def still_world_def fresh_def idle_since_def Let_def
  issued_def record_of_def



lemma length_line_fields:
  "length (line_fields sda_line) = 20" "length (line_fields sdb_line) = 20"
  "length (line_fields short_line) = 4"
  by (simp_all add: sda_line_def sdb_line_def short_line_def line_fields_def strip_def
        is_space_def)

lemma parse_short_line: "parse_diskstats_line short_line = Inl IndexError"
  by (simp add: short_line_def parse_diskstats_line_def line_fields_def strip_def is_space_def
        index_def)

section \<open>Facts about poll and compare\<close>

lemma parse_diskstats_line_cases:
  "parse_diskstats_line l =
     (if length (line_fields l) < 10 then Inl IndexError
      else Inr (line_fields l ! 2, line_fields l ! 5, line_fields l ! 9))"
  by (simp add: parse_diskstats_line_def index_def Let_def)

lemma poll_lines_fields:
  "poll_lines ls st = Inr st' \<Longrightarrow>
   disks st' = disks st \<and> timeout st' = timeout st
   \<and> polling_interval st' = polling_interval st
   \<and> diskstats_prev st' = diskstats_prev st \<and> disk_states st' = disk_states st
   \<and> trace st' = trace st"
proof (induction ls arbitrary: st)
  case Nil
  then show ?case by simp
next
  case (Cons l ls)
  from Cons.prems obtain disk r wr where p: "parse_diskstats_line l = Inr (disk, r, wr)"
    by (auto split: sum.splits)
  show ?case
  proof (cases "disk \<in> set (disks st)")
    case True
    with Cons.prems p Cons.IH [of "st\<lparr>diskstats := (diskstats st)(disk \<mapsto>
                    \<lparr>sectors_read = r, sectors_written = wr\<rparr>)\<rparr>"]
    show ?thesis by simp
  next
    case False
    with Cons.prems p Cons.IH [of st] show ?thesis by simp
  qed
qed

lemma poll_lines_untracked:
  "poll_lines ls st = Inr st' \<Longrightarrow> d \<notin> set (disks st) \<Longrightarrow> diskstats st' d = diskstats st d"
proof (induction ls arbitrary: st)
  case Nil
  then show ?case by simp
next
  case (Cons l ls)
  from Cons.prems obtain disk r wr where p: "parse_diskstats_line l = Inr (disk, r, wr)"
    by (auto split: sum.splits)
  show ?case
  proof (cases "disk \<in> set (disks st)")
    case True
    with Cons.prems p Cons.IH [of "st\<lparr>diskstats := (diskstats st)(disk \<mapsto>
                    \<lparr>sectors_read = r, sectors_written = wr\<rparr>)\<rparr>"]
    show ?thesis by auto
  next
    case False
    with Cons.prems p Cons.IH [of st] show ?thesis by simp
  qed
qed

lemma poll_fields:
  "poll w st = Inr st' \<Longrightarrow>
   disks st' = disks st \<and> timeout st' = timeout st
   \<and> polling_interval st' = polling_interval st
   \<and> diskstats_prev st' = diskstats st \<and> disk_states st' = disk_states st
   \<and> trace st' = trace st"
  unfolding poll_def by (drule poll_lines_fields) simp

lemma poll_untracked:
  "poll w st = Inr st' \<Longrightarrow> d \<notin> set (disks st) \<Longrightarrow> diskstats st' d = None"
  unfolding poll_def by (drule poll_lines_untracked [where d = d]) simp_all

lemma poll_lines_malformed:
  "\<exists>l \<in> set ls. length (line_fields l) < 10 \<Longrightarrow> poll_lines ls st = Inl IndexError"
proof (induction ls arbitrary: st)
  case Nil
  then show ?case by simp
next
  case (Cons l ls)
  show ?case
  proof (cases "length (line_fields l) < 10")
    case True
    then show ?thesis by (simp add: parse_diskstats_line_cases)
  next
    case False
    with Cons.prems have "\<exists>l \<in> set ls. length (line_fields l) < 10" by auto
    with False Cons.IH show ?thesis by (simp add: parse_diskstats_line_cases)
  qed
qed

lemma poll_lines_wellformed:
  "\<forall>l \<in> set ls. 10 \<le> length (line_fields l) \<Longrightarrow> \<exists>st'. poll_lines ls st = Inr st'"
  by (induction ls arbitrary: st) (auto simp: parse_diskstats_line_cases)

text \<open>\<^verbatim>\<open>compare\<close> reads the snapshots and writes the states and the log.\<close>

lemma unchanged_cong:
  "diskstats st' = diskstats st \<Longrightarrow> diskstats_prev st' = diskstats_prev st \<Longrightarrow>
   unchanged st' d = unchanged st d"
  by (simp add: unchanged_def split: option.splits)

lemma compare_disk_fields:
  "compare_disk now disk st = Inr st' \<Longrightarrow>
   disks st' = disks st \<and> timeout st' = timeout st
   \<and> polling_interval st' = polling_interval st
   \<and> diskstats st' = diskstats st \<and> diskstats_prev st' = diskstats_prev st
   \<and> commands (trace st') = commands (trace st)
   \<and> commands_for d (trace st') = commands_for d (trace st)"
  by (auto simp: compare_disk_def syslog_def set_state_def split: if_splits option.splits)

lemma compare_disk_other:
  "compare_disk now disk st = Inr st' \<Longrightarrow> disk \<noteq> d \<Longrightarrow> disk_states st' d = disk_states st d"
  by (auto simp: compare_disk_def syslog_def set_state_def split: if_splits option.splits)

lemma compare_disk_idle:
  "unchanged st d \<Longrightarrow> disk_states st d = Some ds \<Longrightarrow> state ds = IDLE \<or> state ds = POWEROFF \<Longrightarrow>
   compare_disk now d st = Inr st"
  by (auto simp: compare_disk_def)

lemma compare_disk_to_idle:
  "unchanged st d \<Longrightarrow> disk_states st d = Some ds \<Longrightarrow> state ds = ACTIVE \<Longrightarrow>
   compare_disk now d st =
     Inr (syslog LOG_DEBUG (''Disk '' @ d @ '' state changed to IDLE'') (set_state d IDLE now st))"
  by (auto simp: compare_disk_def)

lemma compare_disk_KeyError:
  "unchanged st d \<Longrightarrow> disk_states st d = None \<Longrightarrow> compare_disk now d st = Inl KeyError"
  by (simp add: compare_disk_def)

lemma compare_disk_active:
  "\<not> unchanged st d \<Longrightarrow> disk_states st d = Some ds \<Longrightarrow> state ds = ACTIVE \<Longrightarrow>
   compare_disk now d st = Inr st"
  by (simp add: compare_disk_def)

lemma compare_disk_to_active:
  "\<not> unchanged st d \<Longrightarrow>
   disk_states st d = None \<or> (\<exists>ds. disk_states st d = Some ds \<and> state ds \<noteq> ACTIVE) \<Longrightarrow>
   compare_disk now d st =
     Inr (syslog LOG_DEBUG (''Disk '' @ d @ '' state changed to ACTIVE'')
            (set_state d ACTIVE now st))"
  by (auto simp: compare_disk_def)

lemma set_state_record [simp]:
  "disk_states (syslog p m (set_state d l now st)) d = Some \<lparr>state = l, timestamp = now\<rparr>"
  by (simp add: syslog_def set_state_def)

lemma compare_loop_fields:
  "compare_loop clock i ds st = Inr st' \<Longrightarrow>
   disks st' = disks st \<and> timeout st' = timeout st
   \<and> polling_interval st' = polling_interval st
   \<and> diskstats st' = diskstats st \<and> diskstats_prev st' = diskstats_prev st
   \<and> commands (trace st') = commands (trace st)
   \<and> commands_for d (trace st') = commands_for d (trace st)"
proof (induction ds arbitrary: i st)
  case Nil
  then show ?case by simp
next
  case (Cons x xs)
  from Cons.prems obtain st1 where 1: "compare_disk (clock i) x st = Inr st1"
    and 2: "compare_loop clock (Suc i) xs st1 = Inr st'"
    by (auto split: sum.splits)
  from compare_disk_fields [OF 1, of d] Cons.IH [OF 2] show ?case by simp
qed

lemma compare_loop_other:
  "compare_loop clock i ds st = Inr st' \<Longrightarrow> d \<notin> set ds \<Longrightarrow>
   disk_states st' d = disk_states st d"
proof (induction ds arbitrary: i st)
  case Nil
  then show ?case by simp
next
  case (Cons x xs)
  from Cons.prems obtain st1 where 1: "compare_disk (clock i) x st = Inr st1"
    and 2: "compare_loop clock (Suc i) xs st1 = Inr st'"
    by (auto split: sum.splits)
  from Cons.prems compare_disk_other [OF 1, of d] Cons.IH [OF 2] show ?case by auto
qed

lemma compare_loop_append:
  "compare_loop clock i (xs @ ys) st =
     (case compare_loop clock i xs st of
        Inl e \<Rightarrow> Inl e
      | Inr st1 \<Rightarrow> compare_loop clock (i + length xs) ys st1)"
  by (induction xs arbitrary: i st) (simp_all split: sum.splits)

text \<open>A record that the body of the loop leaves as it is, is left by the whole loop:
  idle or powered off with the counters unchanged, active with the counters changed.\<close>

lemma compare_loop_kept:
  assumes "compare_loop clock i xs st = Inr st'"
    and "disk_states st d = Some ds"
    and "(unchanged st d \<and> (state ds = IDLE \<or> state ds = POWEROFF))
         \<or> (\<not> unchanged st d \<and> state ds = ACTIVE)"
  shows "disk_states st' d = Some ds"
  using assms
proof (induction xs arbitrary: i st)
  case Nil
  then show ?case by simp
next
  case (Cons x xs)
  from Cons.prems(1) obtain st1 where 1: "compare_disk (clock i) x st = Inr st1"
    and 2: "compare_loop clock (Suc i) xs st1 = Inr st'"
    by (auto split: sum.splits)
  have rec: "disk_states st1 d = Some ds"
  proof (cases "x = d")
    case True
    with Cons.prems(2,3) have "compare_disk (clock i) x st = Inr st"
      by (auto simp: compare_disk_idle compare_disk_active)
    with 1 Cons.prems(2) show ?thesis by simp
  next
    case False
    with compare_disk_other [OF 1, of d] Cons.prems(2) show ?thesis by simp
  qed
  from compare_disk_fields [OF 1, of d] have "unchanged st1 d = unchanged st d"
    by (intro unchanged_cong) simp_all
  with Cons.prems(3) Cons.IH [OF 2 rec] show ?case by simp
qed

section \<open>The activity detector\<close>

lemma poll_lines_old_nonempty:
  "poll_lines_old ls so = Inr so' \<Longrightarrow> \<forall>d. diskstats_old so d \<noteq> Some [] \<Longrightarrow>
   diskstats_old so' d \<noteq> Some []"
proof (induction ls arbitrary: so)
  case Nil
  then show ?case by simp
next
  case (Cons l ls)
  from Cons.prems(1) obtain disk r w where p: "parse_diskstats_line l = Inr (disk, r, w)"
    by (auto split: sum.splits)
  show ?case
  proof (cases "disk \<in> set (disks_old so)")
    case True
    with Cons.prems p
      Cons.IH [of "so\<lparr>diskstats_old := (diskstats_old so)(disk \<mapsto> [r, w])\<rparr>"]
    show ?thesis by simp
  next
    case False
    with Cons.prems p Cons.IH [of so] show ?thesis by simp
  qed
qed

text \<open>The snapshots of the earlier \<^verbatim>\<open>poll\<close> are never the empty list.\<close>

lemma poll_old_nonempty: "poll_old w so = Inr so' \<Longrightarrow> diskstats_old so' d \<noteq> Some []"
  unfolding poll_old_def by (erule poll_lines_old_nonempty) simp

text \<open>
  Claim C1. The detector classifies a device as unchanged exactly when the previous and
  the current snapshot both hold the device and their two tokens, sectors read and
  sectors written, are equal; in every other case, a snapshot missing or a token
  different, the device is changed. This is the condition of \<^verbatim>\<open>compare\<close> in the current
  version; it is also the condition of the earlier version, whose snapshots are the
  two-element lists \<^verbatim>\<open>poll\<close> stores, never the empty list (\<open>poll_old_nonempty\<close>).
\<close>

theorem unchanged_iff_both_present_and_equal:
  "(unchanged st d \<longleftrightarrow>
      (\<exists>prev cur. diskstats_prev st d = Some prev \<and> diskstats st d = Some cur
         \<and> sectors_read prev = sectors_read cur
         \<and> sectors_written prev = sectors_written cur))
   \<and> (diskstats_old so d \<noteq> Some [] \<longrightarrow>
        (unchanged_old so d \<longleftrightarrow>
           (\<exists>prev cur. diskstats_prev_old so d = Some prev \<and> diskstats_old so d = Some cur
              \<and> prev = cur)))"
  by (auto simp: unchanged_def DiskSectors_eq_def unchanged_old_def get_def
           split: option.splits)

theorem unchanged_iff_both_present_and_equal_witness:
  "unchanged ((idle_since [''sda''] ''sda'' 0)\<lparr>diskstats_prev :=
       [''sda'' \<mapsto> \<lparr>sectors_read = ''4603573'', sectors_written = ''4666256''\<rparr>]\<rparr>) ''sda''
   \<and> \<not> unchanged (idle_since [''sda''] ''sda'' 0) ''sda''
   \<and> diskstats_old ((fresh_old [''sda''])\<lparr>diskstats_old := [''sda'' \<mapsto> [''1'', ''2'']],
         diskstats_prev_old := [''sda'' \<mapsto> [''1'', ''2'']]\<rparr>) ''sda'' \<noteq> Some []
   \<and> unchanged_old ((fresh_old [''sda''])\<lparr>diskstats_old := [''sda'' \<mapsto> [''1'', ''2'']],
         diskstats_prev_old := [''sda'' \<mapsto> [''1'', ''2'']]\<rparr>) ''sda''"
  using unchanged_iff_both_present_and_equal
          [of "(idle_since [''sda''] ''sda'' 0)\<lparr>diskstats_prev :=
                 [''sda'' \<mapsto> \<lparr>sectors_read = ''4603573'', sectors_written = ''4666256''\<rparr>]\<rparr>"
              "''sda''"
              "(fresh_old [''sda''])\<lparr>diskstats_old := [''sda'' \<mapsto> [''1'', ''2'']],
                 diskstats_prev_old := [''sda'' \<mapsto> [''1'', ''2'']]\<rparr>"]
        unchanged_iff_both_present_and_equal
          [of "idle_since [''sda''] ''sda'' 0" "''sda''" "fresh_old []"]
  by (simp add: idle_since_def fresh_def fresh_old_def)

section \<open>The power controller\<close>





section \<open>The state machine\<close>





text \<open>
  Claim C4. When the detector reports a device as changed: if the device is not
  \<^verbatim>\<open>ACTIVE\<close> (it is \<^verbatim>\<open>IDLE\<close>, \<^verbatim>\<open>POWEROFF\<close> or has no record) it becomes \<^verbatim>\<open>ACTIVE\<close> with the
  current time as its timestamp; if it is \<^verbatim>\<open>ACTIVE\<close> already nothing happens and its record
  is left as it was. The first part is the body of the loop of \<^verbatim>\<open>compare\<close>, which does not
  fail there; the second is the whole pass over the tracked list, where the time is the
  one read at the first place of the device in the list.
\<close>

theorem changed_becomes_active:
  "(\<not> unchanged st d \<longrightarrow>
      compare_disk now d st =
        Inr (if \<exists>ds. disk_states st d = Some ds \<and> state ds = ACTIVE then st
             else syslog LOG_DEBUG (''Disk '' @ d @ '' state changed to ACTIVE'')
                    (st\<lparr>disk_states := (disk_states st)(d \<mapsto> \<lparr>state = ACTIVE, timestamp = now\<rparr>)\<rparr>)))
   \<and> (\<not> unchanged st d \<and> d \<in> set (disks st) \<and> compare w st = Inr st' \<longrightarrow>
       (if \<exists>ds. disk_states st d = Some ds \<and> state ds = ACTIVE
        then disk_states st' d = disk_states st d
        else \<exists>i<length (disks st). disks st ! i = d \<and> (\<forall>k<i. disks st ! k \<noteq> d)
               \<and> disk_states st' d = Some \<lparr>state = ACTIVE, timestamp = now_compare w i\<rparr>))"
proof (intro conjI impI)
  assume "\<not> unchanged st d"
  then show "compare_disk now d st =
        Inr (if \<exists>ds. disk_states st d = Some ds \<and> state ds = ACTIVE then st
             else syslog LOG_DEBUG (''Disk '' @ d @ '' state changed to ACTIVE'')
                    (st\<lparr>disk_states := (disk_states st)(d \<mapsto> \<lparr>state = ACTIVE, timestamp = now\<rparr>)\<rparr>))"
    by (auto simp: compare_disk_def set_state_def split: option.splits)
next
  assume a: "\<not> unchanged st d \<and> d \<in> set (disks st) \<and> compare w st = Inr st'"
  then have loop: "compare_loop (now_compare w) 0 (disks st) st = Inr st'"
    by (simp add: compare_def)
  show "if \<exists>ds. disk_states st d = Some ds \<and> state ds = ACTIVE
        then disk_states st' d = disk_states st d
        else \<exists>i<length (disks st). disks st ! i = d \<and> (\<forall>k<i. disks st ! k \<noteq> d)
               \<and> disk_states st' d = Some \<lparr>state = ACTIVE, timestamp = now_compare w i\<rparr>"
  proof (cases "\<exists>ds. disk_states st d = Some ds \<and> state ds = ACTIVE")
    case True
    then obtain ds where ds: "disk_states st d = Some ds" "state ds = ACTIVE" by blast
    from compare_loop_kept [OF loop ds(1)] a ds show ?thesis by simp
  next
    case False
    from a obtain pre post where sp: "disks st = pre @ d # post" "d \<notin> set pre"
      by (meson split_list_first)
    from loop sp obtain s1 where s1: "compare_loop (now_compare w) 0 pre st = Inr s1"
      and rest: "compare_loop (now_compare w) (length pre) (d # post) s1 = Inr st'"
      by (auto simp: compare_loop_append split: sum.splits)
    from rest obtain s2 where s2: "compare_disk (now_compare w (length pre)) d s1 = Inr s2"
      and post: "compare_loop (now_compare w) (Suc (length pre)) post s2 = Inr st'"
      by (auto split: sum.splits)
    from compare_loop_other [OF s1 sp(2)] have r1: "disk_states s1 d = disk_states st d" .
    from compare_loop_fields [OF s1, of d] have u1: "unchanged s1 d = unchanged st d"
      by (intro unchanged_cong) simp_all
    with a have nu1: "\<not> unchanged s1 d" by simp
    from False r1 have "disk_states s1 d = None \<or> (\<exists>ds. disk_states s1 d = Some ds \<and> state ds \<noteq> ACTIVE)"
      by (cases "disk_states st d") auto
    from compare_disk_to_active [OF nu1 this, of "now_compare w (length pre)"] s2
    have s2_eq: "s2 = syslog LOG_DEBUG (''Disk '' @ d @ '' state changed to ACTIVE'')
            (set_state d ACTIVE (now_compare w (length pre)) s1)" by simp
    then have r2: "disk_states s2 d = Some \<lparr>state = ACTIVE, timestamp = now_compare w (length pre)\<rparr>"
      by simp
    from compare_disk_fields [OF s2, of d] have "unchanged s2 d = unchanged s1 d"
      by (intro unchanged_cong) simp_all
    with nu1 have nu2: "\<not> unchanged s2 d" by simp
    from compare_loop_kept [OF post r2] nu2
    have fin: "disk_states st' d = Some \<lparr>state = ACTIVE, timestamp = now_compare w (length pre)\<rparr>"
      by simp
    have "length pre < length (disks st)" "disks st ! length pre = d"
      "\<forall>k<length pre. disks st ! k \<noteq> d"
      using sp by (auto simp: nth_append)
    with fin False show ?thesis by auto
  qed
qed

text \<open>A disk idle since 0 with no previous snapshot is changed: \<^verbatim>\<open>compare\<close> at the time 5
  makes it \<^verbatim>\<open>ACTIVE\<close> since 5. A second \<^verbatim>\<open>compare\<close>, at 7, leaves that record.\<close>

theorem changed_becomes_active_witness:
  "\<not> unchanged (idle_since [''sda''] ''sda'' 0) ''sda''
   \<and> ''sda'' \<in> set (disks (idle_since [''sda''] ''sda'' 0))
   \<and> map_sum id (record_of ''sda'')
       (compare (still_world [] 5 2 0) (idle_since [''sda''] ''sda'' 0))
     = Inr (Some \<lparr>state = ACTIVE, timestamp = 5\<rparr>)
   \<and> map_sum id (record_of ''sda'')
       (compare (still_world [] 7 2 0)
          (set_state ''sda'' ACTIVE 5 (idle_since [''sda''] ''sda'' 0)))
     = Inr (Some \<lparr>state = ACTIVE, timestamp = 5\<rparr>)"
proof -
  let ?st = "idle_since [''sda''] ''sda'' 0"
  let ?sa = "set_state ''sda'' ACTIVE 5 ?st"
  have u: "\<not> unchanged ?st ''sda''" "\<not> unchanged ?sa ''sda''"
    by (simp_all add: eval_defs)
  have m: "''sda'' \<in> set (disks ?st)" "''sda'' \<in> set (disks ?sa)"
    by (simp_all add: eval_defs)
  obtain s1 where s1: "compare (still_world [] 5 2 0) ?st = Inr s1"
    by (simp add: eval_defs)
  obtain s2 where s2: "compare (still_world [] 7 2 0) ?sa = Inr s2"
    by (simp add: eval_defs)
  have "disk_states s1 ''sda'' = Some \<lparr>state = ACTIVE, timestamp = 5\<rparr>"
    using changed_becomes_active [of ?st "''sda''" 0 "still_world [] 5 2 0" s1] u m s1
    by (auto simp: idle_since_def fresh_def still_world_def)
  moreover have "disk_states s2 ''sda'' = Some \<lparr>state = ACTIVE, timestamp = 5\<rparr>"
    using changed_becomes_active [of ?sa "''sda''" 0 "still_world [] 7 2 0" s2] u m s2
    by (auto simp: idle_since_def fresh_def still_world_def set_state_def)
  ultimately show ?thesis
    using u m s1 s2 by (simp add: record_of_def)
qed


section \<open>A spin-down that fails\<close>

lemma poweroff_disk_trace: "\<exists>ev. trace (poweroff_disk now a b x st) = trace st @ ev"
  by (simp add: poweroff_disk_def popen_def syslog_def Let_def split: option.splits)

lemma poweroff_loop_trace: "\<exists>ev. trace (poweroff_loop w i xs st) = trace st @ ev"
proof (induction xs arbitrary: i st)
  case Nil
  then show ?case by simp
next
  case (Cons x xs)
  let ?st = "poweroff_disk (now_poweroff w i) (smartctl_returncode w i) (hdparm_returncode w i) x st"
  from poweroff_disk_trace obtain e1 where "trace ?st = trace st @ e1" by blast
  moreover from Cons.IH [of "Suc i" ?st] obtain e2
    where "trace (poweroff_loop w (Suc i) xs ?st) = trace ?st @ e2" by blast
  ultimately show ?case by simp
qed

lemma poweroff_loop_due_at:
  assumes "disk_states st d = Some ds" and "state ds = IDLE \<or> state ds = POWEROFF"
    and "real_of_int (timeout st) \<le> now_poweroff w (i + length pre) - timestamp ds"
  shows "disk_states (poweroff_loop w i (pre @ d # post) st) d
           = Some \<lparr>state = POWEROFF, timestamp = timestamp ds\<rparr>"
    and "\<exists>e1 e2. trace (poweroff_loop w i (pre @ d # post) st) =
           trace st @ e1
           @ (Popen (smartctl_argv d)
              # (if smartctl_returncode w (i + length pre) = 2 then []
                 else Popen (hdparm_argv d)
                        # (if hdparm_returncode w (i + length pre) = 0 then []
                           else [Syslog LOG_ERR (''hdparm failed for '' @ d)])))
           @ e2"
proof -
  let ?k = "i + length pre"
  let ?s1 = "poweroff_loop w i pre st"
  let ?s2 = "poweroff_disk (now_poweroff w ?k) (smartctl_returncode w ?k) (hdparm_returncode w ?k) d ?s1"
  let ?s3 = "poweroff_loop w (Suc ?k) post ?s2"
  have whole: "poweroff_loop w i (pre @ d # post) st = ?s3"
    by (simp add: poweroff_loop_append)
  from poweroff_loop_timestamp [OF assms(1), of w i pre] assms(2)
  obtain ds1 where ds1: "disk_states ?s1 d = Some ds1" "timestamp ds1 = timestamp ds"
    "state ds1 = IDLE \<or> state ds1 = POWEROFF"
    by auto
  from assms(3) ds1(2) have due: "real_of_int (timeout ?s1) \<le> now_poweroff w ?k - timestamp ds1"
    by simp
  note step = poweroff_disk_due [OF ds1(1) ds1(3) due]
  from step(1) have r2: "disk_states ?s2 d = Some (ds1\<lparr>state := POWEROFF\<rparr>)" .
  from poweroff_loop_timestamp [OF r2, of w "Suc ?k" post]
  obtain ds3 where ds3: "disk_states ?s3 d = Some ds3" "timestamp ds3 = timestamp ds1"
    "state ds3 = POWEROFF"
    by auto
  then have "ds3 = \<lparr>state = POWEROFF, timestamp = timestamp ds\<rparr>"
    using ds1(2) by (cases ds3) simp
  with ds3(1) whole
  show "disk_states (poweroff_loop w i (pre @ d # post) st) d
           = Some \<lparr>state = POWEROFF, timestamp = timestamp ds\<rparr>"
    by simp
  from poweroff_loop_trace obtain e1 where e1: "trace ?s1 = trace st @ e1" by blast
  from poweroff_loop_trace obtain e3 where e3: "trace ?s3 = trace ?s2 @ e3" by blast
  let ?mid = "Popen (smartctl_argv d)
             # (if smartctl_returncode w ?k = 2 then []
                else Popen (hdparm_argv d)
                       # (if hdparm_returncode w ?k = 0 then []
                          else [Syslog LOG_ERR (''hdparm failed for '' @ d)]))"
  let ?dbg = "(if state ds1 = POWEROFF then []
                else [Syslog LOG_DEBUG (''Disk '' @ d @ '' state changed to POWEROFF'')])"
  from step(3) have "trace ?s2 = trace ?s1 @ ?mid @ ?dbg" by simp
  with e1 e3 have "trace ?s3 = trace st @ e1 @ ?mid @ (?dbg @ e3)" by simp
  with whole show "\<exists>e1 e2. trace (poweroff_loop w i (pre @ d # post) st) =
           trace st @ e1 @ ?mid @ e2"
    by metis
qed

text \<open>
  Claim C6. The device \<open>d\<close> stands at a position \<open>i\<close> of the tracked list, is \<^verbatim>\<open>IDLE\<close> or
  \<^verbatim>\<open>POWEROFF\<close> with the timeout reached at the reading of the clock there, is not in
  standby, and its spin-down command fails. Then the pass logs the error after the two
  commands; the device is \<^verbatim>\<open>POWEROFF\<close> afterwards with the timestamp it had; the cycle ends
  with a state, no exception (\<^verbatim>\<open>poweroff\<close> has none to raise); and in the next cycle, when
  the device is unchanged again and the clock has not gone backwards, the timeout is
  still reached and the standby query is issued again.
\<close>

theorem failed_spin_down_retried:
  assumes "i < length (disks st)" and "disks st ! i = d"
    and "disk_states st d = Some ds" and "state ds = IDLE \<or> state ds = POWEROFF"
    and "real_of_int (timeout st) \<le> now_poweroff w i - timestamp ds"
    and "smartctl_returncode w i \<noteq> 2" and "hdparm_returncode w i \<noteq> 0"
  shows "(\<exists>e1 e2. trace (poweroff w st) =
            trace st @ e1
            @ [Popen (smartctl_argv d), Popen (hdparm_argv d),
               Syslog LOG_ERR (''hdparm failed for '' @ d)] @ e2)
     \<and> disk_states (poweroff w st) d = Some \<lparr>state = POWEROFF, timestamp = timestamp ds\<rparr>
     \<and> (\<forall>st0 s1. poll w st0 = Inr s1 \<and> compare w s1 = Inr st \<longrightarrow>
           cycle w st0 = Inr (poweroff w st))
     \<and> (\<forall>w' s1 s2.
           poll w' (poweroff w st) = Inr s1 \<and> unchanged s1 d \<and> compare w' s1 = Inr s2
           \<and> now_poweroff w i \<le> now_poweroff w' i \<longrightarrow>
           cycle w' (poweroff w st) = Inr (poweroff w' s2)
           \<and> (\<exists>e1 e2. trace (poweroff w' s2) = trace s2 @ e1 @ Popen (smartctl_argv d) # e2))"
proof (intro conjI allI impI)
  from assms(1,2) have sp: "disks st = take i (disks st) @ d # drop (Suc i) (disks st)"
    by (metis id_take_nth_drop)
  have len: "length (take i (disks st)) = i" using assms(1) by simp
  let ?pre = "take i (disks st)" and ?post = "drop (Suc i) (disks st)"
  have due0: "real_of_int (timeout st) \<le> now_poweroff w (0 + length ?pre) - timestamp ds"
    using assms(5) len by simp
  note at = poweroff_loop_due_at [OF assms(3,4) due0, of ?post]
  have p: "poweroff w st = poweroff_loop w 0 (?pre @ d # ?post) st"
    using sp by (simp add: poweroff_def)
  from at(2) assms(6,7) len p
  show "\<exists>e1 e2. trace (poweroff w st) =
            trace st @ e1
            @ [Popen (smartctl_argv d), Popen (hdparm_argv d),
               Syslog LOG_ERR (''hdparm failed for '' @ d)] @ e2"
    by simp
  from at(1) p
  show rec: "disk_states (poweroff w st) d = Some \<lparr>state = POWEROFF, timestamp = timestamp ds\<rparr>"
    by simp
  {
    fix st0 s1
    assume "poll w st0 = Inr s1 \<and> compare w s1 = Inr st"
    then show "cycle w st0 = Inr (poweroff w st)" by (simp add: cycle_def)
  }
  {
    fix w' s1 s2
    assume a: "poll w' (poweroff w st) = Inr s1 \<and> unchanged s1 d \<and> compare w' s1 = Inr s2
           \<and> now_poweroff w i \<le> now_poweroff w' i"
    then show "cycle w' (poweroff w st) = Inr (poweroff w' s2)" by (simp add: cycle_def)
    let ?ds = "\<lparr>state = POWEROFF, timestamp = timestamp ds\<rparr>"
    from a have poll': "poll w' (poweroff w st) = Inr s1" by simp
    from a have loop: "compare_loop (now_compare w') 0 (disks s1) s1 = Inr s2"
      by (simp add: compare_def)
    from poll_fields [OF poll'] rec have r1: "disk_states s1 d = Some ?ds" by simp
    from compare_loop_kept [OF loop r1] a have r2: "disk_states s2 d = Some ?ds" by simp
    from poll_fields [OF poll'] compare_loop_fields [OF loop, of d]
    have same: "disks s2 = disks st" "timeout s2 = timeout st"
      by (simp_all add: poweroff_def)
    have due': "real_of_int (timeout s2) \<le> now_poweroff w' (0 + length ?pre) - timestamp ?ds"
      using assms(5) a len same by simp
    have p': "poweroff w' s2 = poweroff_loop w' 0 (?pre @ d # ?post) s2"
      using sp same by (simp add: poweroff_def)
    from poweroff_loop_due_at(2) [OF r2 _ due', of ?post] p'
    show "\<exists>e1 e2. trace (poweroff w' s2) = trace s2 @ e1 @ Popen (smartctl_argv d) # e2"
      by (metis DiskState.select_convs(1) append_Cons)
  }
qed

text \<open>A disk idle since 0 with the timeout 1800: at 1800 it is awake and \<^verbatim>\<open>hdparm\<close> exits
  with 1; ten seconds later the same happens again.\<close>

theorem failed_spin_down_retried_witness:
  "issued (poweroff (still_world [sda_line] 1800 0 1) (idle_since [''sda''] ''sda'' 0))
     = [smartctl_argv ''sda'', hdparm_argv ''sda'']
   \<and> Syslog LOG_ERR ''hdparm failed for sda''
       \<in> set (trace (poweroff (still_world [sda_line] 1800 0 1) (idle_since [''sda''] ''sda'' 0)))
   \<and> record_of ''sda'' (poweroff (still_world [sda_line] 1800 0 1) (idle_since [''sda''] ''sda'' 0))
     = Some \<lparr>state = POWEROFF, timestamp = 0\<rparr>
   \<and> map_sum id issued
       (cycle (still_world [sda_line] 1810 0 1)
          (poweroff (still_world [sda_line] 1800 0 1) (idle_since [''sda''] ''sda'' 0)))
     = Inr [smartctl_argv ''sda'', hdparm_argv ''sda'', smartctl_argv ''sda'', hdparm_argv ''sda'']"
  using failed_spin_down_retried
          [of 0 "idle_since [''sda''] ''sda'' 0" "''sda''" "\<lparr>state = IDLE, timestamp = 0\<rparr>"
              "still_world [sda_line] 1800 0 1"]
  by (simp add: parse_sda_line eval_defs)

section \<open>A malformed line of the counter source\<close>

lemma run_append:
  "run (ws1 @ ws2) st = (case run ws1 st of Inl e \<Rightarrow> Inl e | Inr st1 \<Rightarrow> run ws2 st1)"
  by (induction ws1 arbitrary: st) (simp_all split: sum.splits)

text \<open>
  Claim C7, as amended. A line of the counter source with fewer than ten fields makes
  \<^verbatim>\<open>parse_diskstats_line\<close> raise \<^verbatim>\<open>IndexError\<close>. Nothing catches it: \<^verbatim>\<open>poll\<close> ends with the
  exception, so does the cycle, and so does \<^verbatim>\<open>run\<close> in whatever cycle the line comes up,
  which ends the daemon; the lines after it are not read. \<^verbatim>\<open>poll\<close> completes when every
  line has at least ten fields.
\<close>

theorem malformed_line_ends_run:
  "((\<exists>l \<in> set (diskstats_lines w). length (line_fields l) < 10) \<longrightarrow>
      poll w st = Inl IndexError \<and> cycle w st = Inl IndexError
      \<and> (\<forall>ws1 ws2 st0. run ws1 st0 = Inr st \<longrightarrow> run (ws1 @ w # ws2) st0 = Inl IndexError))
   \<and> ((\<forall>l \<in> set (diskstats_lines w). 10 \<le> length (line_fields l)) \<longrightarrow>
      (\<exists>st'. poll w st = Inr st'))"
proof (intro conjI impI allI)
  assume bad: "\<exists>l \<in> set (diskstats_lines w). length (line_fields l) < 10"
  then show p: "poll w st = Inl IndexError"
    by (simp add: poll_def poll_lines_malformed)
  then show c: "cycle w st = Inl IndexError"
    by (simp add: cycle_def)
  fix ws1 ws2 st0
  assume "run ws1 st0 = Inr st"
  with c show "run (ws1 @ w # ws2) st0 = Inl IndexError"
    by (simp add: run_append)
next
  assume "\<forall>l \<in> set (diskstats_lines w). 10 \<le> length (line_fields l)"
  then show "\<exists>st'. poll w st = Inr st'"
    unfolding poll_def by (rule poll_lines_wellformed)
qed

text \<open>The theorem on two sources for the disks \<^verbatim>\<open>sda\<close> and \<^verbatim>\<open>sdb\<close>: one whose first line
  is cut short, one with the two full lines.\<close>

theorem malformed_line_ends_run_witness:
  "cycle (still_world [short_line, sdb_line] 0 2 0) (fresh [''sda'', ''sdb'']) = Inl IndexError
   \<and> run ([] @ still_world [short_line, sdb_line] 0 2 0 # []) (fresh [''sda'', ''sdb''])
     = Inl IndexError
   \<and> (\<exists>st'. poll (still_world [sda_line, sdb_line] 0 2 0) (fresh [''sda'', ''sdb'']) = Inr st')"
proof -
  let ?bad = "still_world [short_line, sdb_line] 0 2 0"
  let ?good = "still_world [sda_line, sdb_line] 0 2 0"
  have b: "\<exists>l \<in> set (diskstats_lines ?bad). length (line_fields l) < 10"
    by (simp add: still_world_def length_line_fields)
  have g: "\<forall>l \<in> set (diskstats_lines ?good). 10 \<le> length (line_fields l)"
    by (simp add: still_world_def length_line_fields)
  have r: "run [] (fresh [''sda'', ''sdb'']) = Inr (fresh [''sda'', ''sdb''])"
    by simp
  from malformed_line_ends_run [of ?bad "fresh [''sda'', ''sdb'']"] b r
       malformed_line_ends_run [of ?good "fresh [''sda'', ''sdb'']"] g
  show ?thesis by blast
qed

text \<open>The claim as it was stated fails: the first line is cut after four fields, the
  second is a full line for the tracked disk \<^verbatim>\<open>sdb\<close>, and \<^verbatim>\<open>poll\<close> ends with the exception,
  which leaves \<^verbatim>\<open>run\<close>; no snapshot of \<^verbatim>\<open>sdb\<close> is made.\<close>

theorem malformed_line_aborts_poll:
  "length (line_fields short_line) = 4
   \<and> parse_diskstats_line sdb_line = Inr (''sdb'', ''4603573'', ''4666256'')
   \<and> ''sdb'' \<in> set (disks (fresh [''sda'', ''sdb'']))
   \<and> poll (still_world [short_line, sdb_line] 0 2 0) (fresh [''sda'', ''sdb''])
     = Inl IndexError
   \<and> run [still_world [short_line, sdb_line] 0 2 0] (fresh [''sda'', ''sdb''])
     = Inl IndexError"
  by (simp add: length_line_fields parse_sdb_line parse_short_line eval_defs)

section \<open>Startup\<close>

lemma init_disks:
  "init (Some sec) listdir = Inr st \<Longrightarrow>
   disks st = filter (\<lambda>disk. disk \<in> set (filter is_disk_name listdir))
                (map normalize_name
                   (case sec ''devices'' of
                      Some v \<Rightarrow> split CHR '','' (strip v)
                    | None \<Rightarrow> filter is_disk_name listdir))
   \<and> diskstats st = Map.empty \<and> diskstats_prev st = Map.empty \<and> disk_states st = Map.empty
   \<and> commands (trace st) = []"
  by (cases "sec ''devices''"; cases "py_int (case sec ''timeout'' of None \<Rightarrow> str DEFAULT_TIMEOUT | Some v \<Rightarrow> v)";
      cases "py_int (case sec ''polling_interval'' of None \<Rightarrow> str DEFAULT_POLLING_INTERVAL | Some v \<Rightarrow> v)")
     (auto simp: init_def configured_disks_def Let_def)


lemma init_Some: "\<exists>st. init (Some sec) listdir = Inr st"
  by (simp add: init_def Let_def case_prod_beta)










section \<open>The earlier version and the current one\<close>

lemma unchanged_agree:
  assumes "same_snapshots (diskstats_old so) (diskstats sn)"
    and "same_snapshots (diskstats_prev_old so) (diskstats_prev sn)"
  shows "unchanged_old so d = unchanged sn d"
proof -
  from assms have 1: "diskstats_old so d = map_option snapshot_of (diskstats sn d)"
    and 2: "diskstats_prev_old so d = map_option snapshot_of (diskstats_prev sn d)"
    by (simp_all add: same_snapshots_def)
  show ?thesis
    by (cases "diskstats sn d"; cases "diskstats_prev sn d")
       (auto simp: unchanged_old_def unchanged_def get_def 1 2 snapshot_of_def DiskSectors_eq_def)
qed

lemma versions_agree_record:
  "versions_agree so sn \<Longrightarrow>
   versions_agree (so\<lparr>diskstats_old := (diskstats_old so)(disk \<mapsto> [r, w])\<rparr>)
     (sn\<lparr>diskstats := (diskstats sn)(disk \<mapsto> \<lparr>sectors_read = r, sectors_written = w\<rparr>)\<rparr>)"
  by (simp add: versions_agree_def same_snapshots_def snapshot_of_def)

lemma versions_agree_begin:
  "versions_agree so sn \<Longrightarrow>
   versions_agree (so\<lparr>diskstats_prev_old := diskstats_old so, diskstats_old := Map.empty\<rparr>)
     (sn\<lparr>diskstats_prev := diskstats sn, diskstats := Map.empty\<rparr>)"
  by (simp add: versions_agree_def same_snapshots_def)

lemma poll_lines_agree:
  "versions_agree so sn \<Longrightarrow>
   (poll_lines_old ls so = Inl IndexError \<and> poll_lines ls sn = Inl IndexError)
   \<or> (\<exists>so' sn'. poll_lines_old ls so = Inr so' \<and> poll_lines ls sn = Inr sn'
          \<and> versions_agree so' sn')"
proof (induction ls arbitrary: so sn)
  case Nil
  then show ?case by simp
next
  case (Cons l ls)
  show ?case
  proof (cases "parse_diskstats_line l")
    case (Inl e)
    then have "e = IndexError"
      by (simp add: parse_diskstats_line_cases split: if_splits)
    with Inl show ?thesis by simp
  next
    case (Inr p)
    obtain disk r w where p: "p = (disk, r, w)" by (cases p)
    from Cons.prems have d: "disks_old so = disks sn" by (simp add: versions_agree_def)
    show ?thesis
    proof (cases "disk \<in> set (disks sn)")
      case True
      from Cons.IH [OF versions_agree_record [OF Cons.prems, of disk r w]] True d Inr p
      show ?thesis by simp
    next
      case False
      from Cons.IH [OF Cons.prems] False d Inr p show ?thesis by simp
    qed
  qed
qed

lemma poll_agree:
  "versions_agree so sn \<Longrightarrow>
   (poll_old w so = Inl IndexError \<and> poll w sn = Inl IndexError)
   \<or> (\<exists>so' sn'. poll_old w so = Inr so' \<and> poll w sn = Inr sn' \<and> versions_agree so' sn')"
  unfolding poll_old_def poll_def
  by (rule poll_lines_agree) (rule versions_agree_begin)

lemma same_status_simps:
  "same_status None new = (new = None)"
  "same_status (Some x) None = False"
  "same_status (Some (l, t)) (Some ds) = (l = state ds \<and> (l \<noteq> ACTIVE \<longrightarrow> t = timestamp ds))"
  by (simp_all add: same_status_def split: prod.splits)

lemma compare_disk_agree:
  assumes "versions_agree so sn" and "unchanged sn d \<longrightarrow> disk_states sn d \<noteq> None"
  shows "\<exists>sn'. compare_disk now d sn = Inr sn' \<and> versions_agree (compare_disk_old now d so) sn'"
proof -
  from assms(1) have u: "unchanged_old so d = unchanged sn d"
    by (simp add: versions_agree_def unchanged_agree)
  from assms(1) have s: "same_status (disk_statuses so d) (disk_states sn d)"
    by (simp add: versions_agree_def)
  show ?thesis
  proof (cases "disk_states sn d")
    case None
    with s have o: "disk_statuses so d = None"
      by (simp add: same_status_def split: option.splits prod.splits)
    from None assms(2) have nu: "\<not> unchanged sn d" by simp
    with None o u assms(1) show ?thesis
      by (simp add: compare_disk_def compare_disk_old_def status_label_def syslog_def
            set_state_def versions_agree_def same_status_simps)
  next
    case (Some ds)
    with s obtain t where o: "disk_statuses so d = Some (state ds, t)"
      and t: "state ds \<noteq> ACTIVE \<longrightarrow> t = timestamp ds"
      by (auto simp: same_status_def split: option.splits prod.splits)
    from Some o u t assms(1) show ?thesis
      by (cases "state ds")
         (simp_all add: compare_disk_def compare_disk_old_def status_label_def syslog_def
            set_state_def versions_agree_def same_status_simps)
  qed
qed

lemma compare_disk_recorded:
  "compare_disk now d st = Inr st' \<Longrightarrow>
   disk_states st' d \<noteq> None \<and> (\<forall>x. disk_states st x \<noteq> None \<longrightarrow> disk_states st' x \<noteq> None)"
  by (auto simp: compare_disk_def syslog_def set_state_def split: if_splits option.splits)

lemma compare_loop_agree:
  assumes "versions_agree so sn" and "\<forall>d. unchanged sn d \<longrightarrow> disk_states sn d \<noteq> None"
  shows "\<exists>sn'. compare_loop clock i ds sn = Inr sn'
           \<and> versions_agree (compare_loop_old clock i ds so) sn'
           \<and> (\<forall>d. disk_states sn d \<noteq> None \<longrightarrow> disk_states sn' d \<noteq> None)
           \<and> (\<forall>d \<in> set ds. disk_states sn' d \<noteq> None)"
  using assms
proof (induction ds arbitrary: i so sn)
  case Nil
  then show ?case by simp
next
  case (Cons x xs)
  from compare_disk_agree [OF Cons.prems(1), of x "clock i"] Cons.prems(2)
  obtain s1 where s1: "compare_disk (clock i) x sn = Inr s1"
    and a1: "versions_agree (compare_disk_old (clock i) x so) s1"
    by blast
  note rec = compare_disk_recorded [OF s1]
  have k1: "\<forall>d. unchanged s1 d \<longrightarrow> disk_states s1 d \<noteq> None"
  proof (intro allI impI)
    fix d assume "unchanged s1 d"
    moreover from compare_disk_fields [OF s1, of d] have "unchanged s1 d = unchanged sn d"
      by (intro unchanged_cong) simp_all
    ultimately show "disk_states s1 d \<noteq> None" using Cons.prems(2) rec by blast
  qed
  from Cons.IH [OF a1 k1, of "Suc i"]
  obtain sn' where sn': "compare_loop clock (Suc i) xs s1 = Inr sn'"
    and a: "versions_agree (compare_loop_old clock (Suc i) xs (compare_disk_old (clock i) x so)) sn'"
    and m: "\<forall>d. disk_states s1 d \<noteq> None \<longrightarrow> disk_states sn' d \<noteq> None"
    and r: "\<forall>d \<in> set xs. disk_states sn' d \<noteq> None"
    by blast
  from s1 sn' a m r rec show ?case by auto
qed

lemma poweroff_disk_agree:
  assumes "versions_agree so sn"
  shows "\<exists>so'. poweroff_disk_old now a b d so = Inr so'
           \<and> versions_agree so' (poweroff_disk now a b d sn)"
proof -
  from assms have s: "same_status (disk_statuses so d) (disk_states sn d)"
    and tm: "timeout_old so = timeout sn"
    by (simp_all add: versions_agree_def)
  show ?thesis
  proof (cases "disk_states sn d")
    case None
    with s have o: "disk_statuses so d = None"
      by (auto simp: same_status_def split: option.splits prod.splits)
    with None assms show ?thesis
      by (simp add: poweroff_disk_def poweroff_disk_old_def get_def)
  next
    case (Some ds)
    with s obtain t where o: "disk_statuses so d = Some (state ds, t)"
      and t: "state ds \<noteq> ACTIVE \<longrightarrow> t = timestamp ds"
      by (auto simp: same_status_def split: option.splits prod.splits)
    from Some o t tm assms show ?thesis
      by (cases "state ds")
         (simp_all add: poweroff_disk_def poweroff_disk_old_def get_def Let_def popen_def
            popen_old_def syslog_def syslog_old_def versions_agree_def same_status_simps)
  qed
qed

lemma poweroff_loop_agree:
  "versions_agree so sn \<Longrightarrow>
   \<exists>so'. poweroff_loop_old w i ds so = Inr so' \<and> versions_agree so' (poweroff_loop w i ds sn)"
proof (induction ds arbitrary: i so sn)
  case Nil
  then show ?case by simp
next
  case (Cons x xs)
  from poweroff_disk_agree [OF Cons.prems, of "now_poweroff w i" "smartctl_returncode w i"
          "hdparm_returncode w i" x]
  obtain s1 where s1: "poweroff_disk_old (now_poweroff w i) (smartctl_returncode w i)
          (hdparm_returncode w i) x so = Inr s1"
    and a1: "versions_agree s1 (poweroff_disk (now_poweroff w i) (smartctl_returncode w i)
          (hdparm_returncode w i) x sn)"
    by blast
  from Cons.IH [OF a1, of "Suc i"] s1 show ?case by simp
qed

lemma poweroff_loop_recorded:
  "disk_states st d \<noteq> None \<Longrightarrow> disk_states (poweroff_loop w i xs st) d \<noteq> None"
  using poweroff_loop_timestamp [of st d _ w i xs] by (cases "disk_states st d") auto

lemma cycle_agree:
  assumes "versions_agree so sn" and "recorded sn"
  shows "(cycle_old w so = Inl IndexError \<and> cycle w sn = Inl IndexError)
   \<or> (\<exists>so' sn'. cycle_old w so = Inr so' \<and> cycle w sn = Inr sn'
          \<and> versions_agree so' sn' \<and> recorded sn')"
proof -
  from poll_agree [OF assms(1), of w] show ?thesis
  proof (elim disjE exE conjE)
    assume "poll_old w so = Inl IndexError" "poll w sn = Inl IndexError"
    then show ?thesis by (simp add: cycle_old_def cycle_def)
  next
    fix so1 sn1
    assume po: "poll_old w so = Inr so1" and pn: "poll w sn = Inr sn1"
      and a1: "versions_agree so1 sn1"
    note pf = poll_fields [OF pn]
    have k: "\<forall>d. unchanged sn1 d \<longrightarrow> disk_states sn1 d \<noteq> None"
    proof (intro allI impI)
      fix d assume "unchanged sn1 d"
      then have "diskstats_prev sn1 d \<noteq> None"
        by (auto simp: unchanged_def split: option.splits)
      with pf assms(2) show "disk_states sn1 d \<noteq> None" by (simp add: recorded_def)
    qed
    from a1 have d1: "disks_old so1 = disks sn1" by (simp add: versions_agree_def)
    from compare_loop_agree [OF a1 k, of "now_compare w" 0 "disks sn1"]
    obtain sn2 where cn: "compare w sn1 = Inr sn2"
      and a2: "versions_agree (compare_old w so1) sn2"
      and r2: "\<forall>d \<in> set (disks sn1). disk_states sn2 d \<noteq> None"
      by (auto simp: compare_def compare_old_def d1)
    from cn have loop: "compare_loop (now_compare w) 0 (disks sn1) sn1 = Inr sn2"
      by (simp add: compare_def)
    note cf = compare_loop_fields [OF loop]
    from a2 have d2: "disks_old (compare_old w so1) = disks sn2" by (simp add: versions_agree_def)
    from poweroff_loop_agree [OF a2, of w 0 "disks sn2"]
    obtain so3 where oo: "poweroff_old w (compare_old w so1) = Inr so3"
      and a3: "versions_agree so3 (poweroff w sn2)"
      by (auto simp: poweroff_def poweroff_old_def d2)
    let ?so' = "if dump_log so3
                then (syslog_old LOG_INFO (dump_message so3) so3)\<lparr>dump_log := False\<rparr>
                else so3"
    from a3 have a4: "versions_agree ?so' (poweroff w sn2)"
      by (simp add: versions_agree_def syslog_old_def)
    have rec: "recorded (poweroff w sn2)"
      unfolding recorded_def
    proof (intro allI impI)
      fix d assume "diskstats (poweroff w sn2) d \<noteq> None"
      with cf [of d] have "diskstats sn1 d \<noteq> None" by (simp add: poweroff_def)
      with poll_untracked [OF pn, of d] pf have "d \<in> set (disks sn1)" by auto
      with r2 have "disk_states sn2 d \<noteq> None" by blast
      then show "disk_states (poweroff w sn2) d \<noteq> None"
        by (simp add: poweroff_def poweroff_loop_recorded)
    qed
    from po pn cn oo a4 rec show ?thesis
      by (simp add: cycle_old_def cycle_def)
  qed
qed

lemma run_agree:
  assumes "versions_agree so sn" and "recorded sn"
  shows "(run_old ws so = Inl IndexError \<and> run ws sn = Inl IndexError)
   \<or> (\<exists>so' sn'. run_old ws so = Inr so' \<and> run ws sn = Inr sn'
          \<and> versions_agree so' sn' \<and> recorded sn')"
  using assms
proof (induction ws arbitrary: so sn)
  case Nil
  then show ?case by simp
next
  case (Cons w ws)
  from cycle_agree [OF Cons.prems, of w] show ?case
  proof (elim disjE exE conjE)
    assume "cycle_old w so = Inl IndexError" "cycle w sn = Inl IndexError"
    then show ?thesis by simp
  next
    fix so1 sn1
    assume c: "cycle_old w so = Inr so1" "cycle w sn = Inr sn1"
      and a: "versions_agree so1 sn1" "recorded sn1"
    from Cons.IH [OF a] c show ?thesis by simp
  qed
qed

lemma init_timeout:
  "init (Some sec) listdir = Inr st \<Longrightarrow>
   timeout st = (case py_int (case sec ''timeout'' of None \<Rightarrow> str DEFAULT_TIMEOUT | Some v \<Rightarrow> v) of
                   Some n \<Rightarrow> n | None \<Rightarrow> 1800)"
  by (cases "py_int (case sec ''timeout'' of None \<Rightarrow> str DEFAULT_TIMEOUT | Some v \<Rightarrow> v)";
      cases "py_int (case sec ''polling_interval'' of None \<Rightarrow> str DEFAULT_POLLING_INTERVAL | Some v \<Rightarrow> v)")
     (auto simp: init_def Let_def case_prod_beta DEFAULT_TIMEOUT_def str_defaults)

lemma init_old_fields:
  "init_old (Some sec) listdir = Inr so \<Longrightarrow>
   disks_old so = filter (\<lambda>disk. disk \<in> set (filter is_disk_name listdir))
                (map normalize_disk
                   (case sec ''devices'' of
                      Some v \<Rightarrow> split CHR '','' (strip v)
                    | None \<Rightarrow> filter is_disk_name listdir))
   \<and> timeout_old so = (case py_int (case sec ''timeout'' of None \<Rightarrow> ''1800'' | Some v \<Rightarrow> v) of
                   Some n \<Rightarrow> n | None \<Rightarrow> 1800)
   \<and> diskstats_old so = Map.empty \<and> diskstats_prev_old so = Map.empty
   \<and> disk_statuses so = Map.empty \<and> commands (trace_old so) = []"
  by (cases "sec ''devices''"; cases "py_int (case sec ''timeout'' of None \<Rightarrow> ''1800'' | Some v \<Rightarrow> v)";
      cases "py_int (case sec ''polling_interval'' of None \<Rightarrow> ''5'' | Some v \<Rightarrow> v)")
     (auto simp: init_old_def configured_disks_def Let_def)

lemma init_started_alike:
  assumes "init_old sec listdir = Inr so" and "init sec listdir = Inr sn"
  shows "started_alike so sn"
proof -
  from assms(2) obtain s where sec: "sec = Some s"
    by (cases sec) (simp_all add: init_def Let_def case_prod_beta)
  have n: "normalize_disk = normalize_name"
    by (rule ext) (simp add: normalize_disk_def normalize_name_def)
  have t: "(case s ''timeout'' of None \<Rightarrow> str DEFAULT_TIMEOUT | Some v \<Rightarrow> v)
      = (case s ''timeout'' of None \<Rightarrow> ''1800'' | Some v \<Rightarrow> v)"
    by (simp add: DEFAULT_TIMEOUT_def str_defaults split: option.split)
  from init_old_fields [of s listdir so] init_disks [of s listdir sn] init_timeout [of s listdir sn]
    assms
  show ?thesis
    by (simp add: sec started_alike_def n t)
qed

lemma init_old_Some: "\<exists>so. init_old (Some sec) listdir = Inr so"
  by (simp add: init_old_def Let_def case_prod_beta)

lemma started_alike_agree: "started_alike so sn \<Longrightarrow> versions_agree so sn \<and> recorded sn"
  by (simp add: started_alike_def versions_agree_def recorded_def same_snapshots_def
        same_status_def)

text \<open>
  Claim C10. The two versions are started on the same configuration and listing (which
  gives them the same tracked devices and timeout, and empty dictionaries) and run
  through the same cycles: the same lines of the counter source, the same readings of
  the clock and the same exit statuses in each iteration. Then either both end with the
  \<^verbatim>\<open>IndexError\<close> of a malformed line (and with no other exception: the \<^verbatim>\<open>KeyError\<close> of
  the current \<^verbatim>\<open>compare\<close> is out of reach), or after the cycles they hold the same
  snapshots, every device has the same label in both, the same timestamp unless the
  label is \<^verbatim>\<open>ACTIVE\<close>, and both have started the same processes in the same order. The
  runs being of any length, this holds after every cycle. The timestamps come apart in
  \<^verbatim>\<open>compare\<close> only, and only as the third part says: from equal records, a changed tick
  on a device already \<^verbatim>\<open>ACTIVE\<close> gives it the timestamp \<open>now\<close> in the earlier version and
  leaves the record in the current one; in every other case the records stay equal. The
  last two parts: \<^verbatim>\<open>poweroff\<close> does nothing for an \<^verbatim>\<open>ACTIVE\<close> device in either version,
  whatever its timestamp.
\<close>

theorem versions_agree_after_every_cycle:
  "(init_old sec listdir = Inr so \<and> init sec listdir = Inr sn \<longrightarrow> started_alike so sn)
   \<and> (started_alike so sn \<longrightarrow>
        (run_old ws so = Inl IndexError \<and> run ws sn = Inl IndexError)
        \<or> (\<exists>so' sn'. run_old ws so = Inr so' \<and> run ws sn = Inr sn' \<and> versions_agree so' sn'))
   \<and> (versions_agree so sn
        \<and> disk_statuses so d = map_option status_of_record (disk_states sn d)
        \<and> compare_disk now d sn = Inr sn' \<longrightarrow>
        (if \<not> unchanged sn d \<and> (\<exists>ds. disk_states sn d = Some ds \<and> state ds = ACTIVE)
         then disk_statuses (compare_disk_old now d so) d = Some (ACTIVE, now)
              \<and> disk_states sn' d = disk_states sn d
         else disk_statuses (compare_disk_old now d so) d
              = map_option status_of_record (disk_states sn' d)))
   \<and> ((\<exists>ds. disk_states sn d = Some ds \<and> state ds = ACTIVE) \<longrightarrow>
        poweroff_disk now a b d sn = sn)
   \<and> ((\<exists>t. disk_statuses so d = Some (ACTIVE, t)) \<longrightarrow>
        poweroff_disk_old now a b d so = Inr so)"
proof (intro conjI impI)
  assume "init_old sec listdir = Inr so \<and> init sec listdir = Inr sn"
  then show "started_alike so sn" using init_started_alike by blast
next
  assume "started_alike so sn"
  then have "versions_agree so sn" "recorded sn" by (simp_all add: started_alike_agree)
  from run_agree [OF this, of ws]
  show "(run_old ws so = Inl IndexError \<and> run ws sn = Inl IndexError)
        \<or> (\<exists>so' sn'. run_old ws so = Inr so' \<and> run ws sn = Inr sn' \<and> versions_agree so' sn')"
    by blast
next
  assume a: "versions_agree so sn
        \<and> disk_statuses so d = map_option status_of_record (disk_states sn d)
        \<and> compare_disk now d sn = Inr sn'"
  then have u: "unchanged_old so d = unchanged sn d"
    by (simp add: versions_agree_def unchanged_agree)
  show "if \<not> unchanged sn d \<and> (\<exists>ds. disk_states sn d = Some ds \<and> state ds = ACTIVE)
         then disk_statuses (compare_disk_old now d so) d = Some (ACTIVE, now)
              \<and> disk_states sn' d = disk_states sn d
         else disk_statuses (compare_disk_old now d so) d
              = map_option status_of_record (disk_states sn' d)"
  proof (cases "disk_states sn d")
    case None
    with a u show ?thesis
      by (auto simp: compare_disk_def compare_disk_old_def status_label_def syslog_def
            set_state_def status_of_record_def split: if_splits)
  next
    case (Some ds)
    with a u show ?thesis
      by (cases "state ds")
         (auto simp: compare_disk_def compare_disk_old_def status_label_def syslog_def
            set_state_def status_of_record_def split: if_splits)
  qed
next
  assume "\<exists>ds. disk_states sn d = Some ds \<and> state ds = ACTIVE"
  then show "poweroff_disk now a b d sn = sn"
    by (intro poweroff_disk_skip) blast
next
  assume "\<exists>t. disk_statuses so d = Some (ACTIVE, t)"
  then show "poweroff_disk_old now a b d so = Inr so"
    by (auto simp: poweroff_disk_old_def get_def)
qed

lemmas eval_defs_old =
  run_old.simps cycle_old_def poll_old_def poll_lines_old.simps compare_old_def
  compare_loop_old.simps compare_disk_old_def unchanged_old_def get_def status_label_def
  poweroff_old_def poweroff_loop_old.simps poweroff_disk_old_def popen_old_def syslog_old_def
  fresh_old_def status_of_def issued_old_def

text \<open>The five cycles for the disk \<^verbatim>\<open>sda\<close>. After the second, where the disk was
  missing, the earlier version has the timestamp 10 and the current one 0; after the
  fifth both have the disk \<^verbatim>\<open>POWEROFF\<close> since 30 and have issued the same two commands.\<close>

theorem versions_agree_after_every_cycle_witness:
  "(\<exists>so sn. init_old (Some Map.empty) [''sda''] = Inr so \<and> init (Some Map.empty) [''sda''] = Inr sn
      \<and> started_alike so sn)
   \<and> started_alike (fresh_old [''sda'']) (fresh [''sda''])
   \<and> map_sum id (status_of ''sda'') (run_old (take 2 five_cycles) (fresh_old [''sda'']))
     = Inr (Some (ACTIVE, 10))
   \<and> map_sum id (record_of ''sda'') (run (take 2 five_cycles) (fresh [''sda'']))
     = Inr (Some \<lparr>state = ACTIVE, timestamp = 0\<rparr>)
   \<and> map_sum id (status_of ''sda'') (run_old five_cycles (fresh_old [''sda'']))
     = Inr (Some (POWEROFF, 30))
   \<and> map_sum id (record_of ''sda'') (run five_cycles (fresh [''sda'']))
     = Inr (Some \<lparr>state = POWEROFF, timestamp = 30\<rparr>)
   \<and> map_sum id issued_old (run_old five_cycles (fresh_old [''sda'']))
     = Inr [smartctl_argv ''sda'', hdparm_argv ''sda'']
   \<and> map_sum id issued (run five_cycles (fresh [''sda'']))
     = Inr [smartctl_argv ''sda'', hdparm_argv ''sda'']
   \<and> status_of ''sda'' (compare_disk_old 10 ''sda'' (active_since_old ''sda'' 0))
     = Some (ACTIVE, 10)
   \<and> compare_disk 10 ''sda'' (active_since ''sda'' 0) = Inr (active_since ''sda'' 0)
   \<and> poweroff_disk 5000 0 0 ''sda'' (active_since ''sda'' 0) = active_since ''sda'' 0
   \<and> poweroff_disk_old 5000 0 0 ''sda'' (active_since_old ''sda'' 0)
     = Inr (active_since_old ''sda'' 0)"
proof -
  note T = versions_agree_after_every_cycle
  obtain so0 sn0 where i: "init_old (Some Map.empty) [''sda''] = Inr so0"
    "init (Some Map.empty) [''sda''] = Inr sn0"
    using init_old_Some init_Some by blast
  then have "init_old (Some Map.empty) [''sda''] = Inr so0 \<and> init (Some Map.empty) [''sda''] = Inr sn0"
    by simp
  from T [of "Some Map.empty" "[''sda'']" so0 sn0, THEN conjunct1, THEN mp, OF this] i
  have i0: "\<exists>so sn. init_old (Some Map.empty) [''sda''] = Inr so
      \<and> init (Some Map.empty) [''sda''] = Inr sn \<and> started_alike so sn"
    by blast
  have s: "started_alike (fresh_old [''sda'']) (fresh [''sda''])"
    by (simp add: started_alike_def fresh_def fresh_old_def)
  have o2: "map_sum id (status_of ''sda'') (run_old (take 2 five_cycles) (fresh_old [''sda'']))
     = Inr (Some (ACTIVE, 10))"
    by (simp add: five_cycles_def parse_sda_line still_world_def eval_defs_old)
  have n2: "map_sum id (record_of ''sda'') (run (take 2 five_cycles) (fresh [''sda'']))
     = Inr (Some \<lparr>state = ACTIVE, timestamp = 0\<rparr>)"
    by (simp add: five_cycles_def parse_sda_line eval_defs)
  have n5: "map_sum id (record_of ''sda'') (run five_cycles (fresh [''sda'']))
       = Inr (Some \<lparr>state = POWEROFF, timestamp = 30\<rparr>)
     \<and> map_sum id issued (run five_cycles (fresh [''sda'']))
       = Inr [smartctl_argv ''sda'', hdparm_argv ''sda'']"
    by (simp add: five_cycles_def parse_sda_line eval_defs)
  then obtain sn' where sn': "run five_cycles (fresh [''sda'']) = Inr sn'"
    "disk_states sn' ''sda'' = Some \<lparr>state = POWEROFF, timestamp = 30\<rparr>"
    "commands (trace sn') = [smartctl_argv ''sda'', hdparm_argv ''sda'']"
    by (cases "run five_cycles (fresh [''sda''])") (auto simp: record_of_def issued_def)
  from T [of None "[]" "fresh_old [''sda'']" "fresh [''sda'']" five_cycles,
          THEN conjunct2, THEN conjunct1, THEN mp, OF s] sn'(1)
  obtain so' where so': "run_old five_cycles (fresh_old [''sda'']) = Inr so'"
    and a: "versions_agree so' sn'"
    by auto
  from a have "same_status (disk_statuses so' ''sda'') (disk_states sn' ''sda'')"
    unfolding versions_agree_def by blast
  with sn'(2) have st: "disk_statuses so' ''sda'' = Some (POWEROFF, 30)"
    by (cases "disk_statuses so' ''sda''") (auto simp: same_status_def)
  from a sn'(3) have c: "commands (trace_old so') = [smartctl_argv ''sda'', hdparm_argv ''sda'']"
    by (simp add: versions_agree_def)
  let ?so = "active_since_old ''sda'' 0" and ?sn = "active_since ''sda'' 0"
  have b: "versions_agree ?so ?sn
        \<and> disk_statuses ?so ''sda'' = map_option status_of_record (disk_states ?sn ''sda'')
        \<and> compare_disk 10 ''sda'' ?sn = Inr ?sn"
    by (simp add: active_since_def active_since_old_def versions_agree_def same_snapshots_def
          same_status_simps status_of_record_def eval_defs fresh_old_def)
  have nu: "\<not> unchanged ?sn ''sda'' \<and> (\<exists>ds. disk_states ?sn ''sda'' = Some ds \<and> state ds = ACTIVE)"
    by (simp add: active_since_def eval_defs)
  from T [of None "[]" ?so ?sn "[]" "''sda''" 10 ?sn,
          THEN conjunct2, THEN conjunct2, THEN conjunct1, THEN mp, OF b] nu b
  have d1: "status_of ''sda'' (compare_disk_old 10 ''sda'' ?so) = Some (ACTIVE, 10)"
    "compare_disk 10 ''sda'' ?sn = Inr ?sn"
    by (simp_all add: status_of_def)
  from nu have ac: "\<exists>ds. disk_states ?sn ''sda'' = Some ds \<and> state ds = ACTIVE" by simp
  from T [of None "[]" ?so ?sn "[]" "''sda''" 5000 ?sn 0 0,
          THEN conjunct2, THEN conjunct2, THEN conjunct2, THEN conjunct1, THEN mp, OF ac]
  have d2: "poweroff_disk 5000 0 0 ''sda'' ?sn = ?sn" .
  have "\<exists>t. disk_statuses ?so ''sda'' = Some (ACTIVE, t)"
    by (simp add: active_since_old_def)
  from T [of None "[]" ?so ?sn "[]" "''sda''" 5000 ?sn 0 0,
          THEN conjunct2, THEN conjunct2, THEN conjunct2, THEN conjunct2, THEN mp, OF this]
  have d3: "poweroff_disk_old 5000 0 0 ''sda'' ?so = Inr ?so" .
  from i0 s o2 n2 n5 so' st c d1 d2 d3 show ?thesis
    by (simp add: status_of_def issued_old_def)
qed

end
